theory Spec2Isabelle
  imports Main
begin

section \<open>The symbolic sequence builder (redipy/symbolic/seq.py)\<close>

text \<open>
  The builder is a graph of mutable Python objects. Every \<open>Sequence\<close> object owns a list
  \<open>_seq\<close> of \<open>Compilable\<close> entries; control-flow entries hold references to their child
  \<open>Seq\<close> objects, and the handles returned by \<open>for_\<close>, \<open>if_\<close> and \<open>while_\<close> alias those
  children. The model is an explicit store: an address is a natural number, the store maps
  an address to the \<open>_seq\<close> list of the sequence object living there, and an entry refers
  to its children by address.

  Expressions belong to modules that are not part of the code under study. They are kept
  opaque: \<open>'e\<close> is the type of \<open>Expr\<close> objects, \<open>'x\<close> the type of compiled expression
  nodes, \<open>'m option\<close> the type of \<open>MixedType\<close> values (with \<open>None\<close> for Python's \<open>None\<close>).
  Functions that call \<open>Expr.compile\<close> or \<open>lit_helper\<close> take them as the parameters
  \<open>cmp :: 'e \<Rightarrow> 'x\<close> and \<open>lit :: 'm option \<Rightarrow> 'e\<close>.
\<close>

type_synonym addr = nat

datatype error =
    ValueError string
  | RuntimeError string
  | TypeError string
  | OverflowError string
  | IndexError string

subsection \<open>Variables\<close>

text \<open>
  Modelled from the spec: the classes \<open>Variable\<close>, \<open>JSONArg\<close>, \<open>KeyVariable\<close> and
  \<open>LocalVariable\<close> and the methods \<open>set_index\<close> and \<open>get_index\<close> of \<open>Variable\<close> live in
  redipy.symbolic.core, which is not part of the code under study. The spec says of a
  declared variable that it has a kind and an index, assigned once at creation and never
  changed. seq.py constructs every variable and calls \<open>set_index\<close> on it in the next
  statement, so each variable class is a datatype of its own whose constructor carries
  the index as its last field (after the name of an argument or key, or the initial value
  of a local). \<open>IndexVariable\<close> and \<open>ValueVariable\<close> are the two subclasses that seq.py
  itself defines.
\<close>

datatype JSONArg = JSONArg string nat
datatype KeyVariable = KeyVariable string nat
datatype 'm LocalVariable = LocalVariable "'m option" nat
datatype IndexVariable = IndexVariable nat
datatype ValueVariable = ValueVariable nat

fun IndexVariable_get_index :: "IndexVariable \<Rightarrow> nat" where
  "IndexVariable_get_index (IndexVariable i) = i"

fun ValueVariable_get_index :: "ValueVariable \<Rightarrow> nat" where
  "ValueVariable_get_index (ValueVariable i) = i"

fun JSONArg_get_index :: "JSONArg \<Rightarrow> nat" where
  "JSONArg_get_index (JSONArg name i) = i"

fun KeyVariable_get_index :: "KeyVariable \<Rightarrow> nat" where
  "KeyVariable_get_index (KeyVariable name i) = i"

text \<open>\<open>get_declare_rhs\<close> of the two loop variables raises unconditionally.\<close>

definition IndexVariable_get_declare_rhs :: "IndexVariable \<Rightarrow> error + 'e" where
  "IndexVariable_get_declare_rhs v = Inl (RuntimeError ''must be used in for loop'')"

definition ValueVariable_get_declare_rhs :: "ValueVariable \<Rightarrow> error + 'e" where
  "ValueVariable_get_declare_rhs v = Inl (RuntimeError ''must be used in for loop'')"

definition IndexVariable_prefix :: "IndexVariable \<Rightarrow> string" where
  "IndexVariable_prefix v = ''ix''"

definition ValueVariable_prefix :: "ValueVariable \<Rightarrow> string" where
  "ValueVariable_prefix v = ''val''"

text \<open>Python's \<open>str\<close> of a non-negative integer, as the f-strings of the references use it.\<close>

definition digit_char :: "nat \<Rightarrow> char" where
  "digit_char d = char_of (48 + d)"

fun str_nat :: "nat \<Rightarrow> string" where
  "str_nat n = (if n < 10 then [digit_char n] else str_nat (n div 10) @ [digit_char (n mod 10)])"

declare str_nat.simps [simp del]

datatype RefIdObj = IndexObj string | VarObj string

definition get_index_ref :: "IndexVariable \<Rightarrow> RefIdObj" where
  "get_index_ref v = IndexObj (IndexVariable_prefix v @ ''_'' @ str_nat (IndexVariable_get_index v))"

definition get_var_ref :: "ValueVariable \<Rightarrow> RefIdObj" where
  "get_var_ref v = VarObj (ValueVariable_prefix v @ ''_'' @ str_nat (ValueVariable_get_index v))"

subsection \<open>The compiled intermediate representation\<close>

text \<open>
  Modelled from the spec: \<open>Variable.get_declare\<close> lives in redipy.symbolic.core, which is
  not part of the code under study; the spec calls its result a declare-statement. The
  node \<open>DeclareObj\<close> stands for it and records which variable is declared.
\<close>

datatype 'm declared = DArg JSONArg | DKey KeyVariable | DLocal "'m LocalVariable"

datatype ('m, 'x) CommandObj =
    StmtObj 'x
  | DeclareObj "'m declared"
  | ReturnObj "'x option"
  | BranchObj 'x "('m, 'x) SequenceObj" "('m, 'x) SequenceObj"
  | ForObj 'x RefIdObj RefIdObj "('m, 'x) SequenceObj"
  | WhileObj 'x "('m, 'x) SequenceObj"
and ('m, 'x) SequenceObj =
    SeqObj "('m, 'x) CommandObj list"
  | ScriptObj "('m, 'x) CommandObj list" "string list" "string list"

subsection \<open>Compilable entries\<close>

text \<open>
  Modelled from the spec: \<open>Compilable\<close> and \<open>CmdHelper\<close> are declared in
  redipy.symbolic.core, which is not part of the code under study. By the spec a
  \<open>Compilable\<close> produces one IR node on demand; \<open>CmdHelper\<close> is the \<open>Compilable\<close> that
  wraps a function without arguments and calls it on demand. seq.py creates four kinds of
  such functions: the constant \<open>lambda: stmt\<close> of \<open>add\<close> (and the constant no-value
  return), the bound method \<open>get_declare\<close> of a declared variable, and the return thunk
  that compiles its expression when it is run.
\<close>

datatype ('m, 'e, 'x) thunk =
    Const "('m, 'x) CommandObj"
  | GetDeclare "'m declared"
  | ReturnExpr 'e

text \<open>The control-flow nodes; a child sequence is held by its address.\<close>

datatype 'e Branch =
  Branch (Branch_condition: 'e) (Branch_success: addr) (Branch_failure: addr)

datatype 'e ForLoop =
  ForLoop (ForLoop_ix: IndexVariable) (ForLoop_val: ValueVariable) (ForLoop_loop: addr)
    (ForLoop_array: 'e)

datatype 'e WhileLoop =
  WhileLoop (WhileLoop_condition: 'e) (WhileLoop_loop: addr)

datatype ('m, 'e, 'x) Compilable =
    CmdHelper "('m, 'e, 'x) thunk"
  | CBranch "'e Branch"
  | CForLoop "'e ForLoop"
  | CWhileLoop "'e WhileLoop"

text \<open>A term handed to \<open>add\<close> is a \<open>Compilable\<close> or a bare \<open>Expr\<close>.\<close>

datatype ('m, 'e, 'x) add_term =
    TCompilable "('m, 'e, 'x) Compilable"
  | TExpr 'e

definition Branch_get_success :: "'e Branch \<Rightarrow> addr" where
  "Branch_get_success b = Branch_success b"

definition Branch_get_failure :: "'e Branch \<Rightarrow> addr" where
  "Branch_get_failure b = Branch_failure b"

definition ForLoop_get_index :: "'e ForLoop \<Rightarrow> IndexVariable" where
  "ForLoop_get_index l = ForLoop_ix l"

definition ForLoop_get_value :: "'e ForLoop \<Rightarrow> ValueVariable" where
  "ForLoop_get_value l = ForLoop_val l"

definition ForLoop_get_loop :: "'e ForLoop \<Rightarrow> addr" where
  "ForLoop_get_loop l = ForLoop_loop l"

definition WhileLoop_get_loop :: "'e WhileLoop \<Rightarrow> addr" where
  "WhileLoop_get_loop l = WhileLoop_loop l"

subsection \<open>The script scope and its store\<close>

text \<open>
  There is one \<open>FnContext\<close> per script and every \<open>Seq\<close> is created with a reference to
  it, so the record of the scope also holds the store of all sequences built in it:
  address \<open>0\<close> is the \<open>_seq\<close> list of the scope itself, \<open>next_seq\<close> is the first address
  not yet allocated.
\<close>

record ('m, 'e, 'x) FnContext =
  store :: "addr \<Rightarrow> ('m, 'e, 'x) Compilable list"
  next_seq :: addr
  args :: "(string \<times> JSONArg) list"
  keys :: "(string \<times> KeyVariable) list"
  anames :: "string set"
  knames :: "string set"
  locals :: "'m LocalVariable list"
  loops :: nat

definition self_seq :: addr where
  "self_seq = 0"

definition FnContext_init :: "('m, 'e, 'x) FnContext" where
  "FnContext_init = \<lparr> store = (\<lambda>a. []), next_seq = 1, args = [], keys = [],
     anames = {}, knames = {}, locals = [], loops = 0 \<rparr>"

text \<open>\<open>Seq(ctx)\<close>: a new sequence object with an empty \<open>_seq\<close> list at a fresh address.\<close>

definition Seq_init :: "('m, 'e, 'x) FnContext \<Rightarrow> addr \<times> ('m, 'e, 'x) FnContext" where
  "Seq_init ctx =
     (next_seq ctx, ctx\<lparr> store := (store ctx)(next_seq ctx := []), next_seq := Suc (next_seq ctx) \<rparr>)"

subsection \<open>Sequence.add, is_empty\<close>

definition seq_append :: "addr \<Rightarrow> ('m, 'e, 'x) Compilable \<Rightarrow> ('m, 'e, 'x) FnContext \<Rightarrow> ('m, 'e, 'x) FnContext" where
  "seq_append s c ctx = ctx\<lparr> store := (store ctx)(s := store ctx s @ [c]) \<rparr>"

fun as_entry :: "('e \<Rightarrow> 'x) \<Rightarrow> ('m, 'e, 'x) add_term \<Rightarrow> ('m, 'e, 'x) Compilable" where
  "as_entry cmp (TCompilable c) = c"
| "as_entry cmp (TExpr e) = CmdHelper (Const (StmtObj (cmp e)))"

definition add :: "('e \<Rightarrow> 'x) \<Rightarrow> addr \<Rightarrow> ('m, 'e, 'x) add_term \<Rightarrow> ('m, 'e, 'x) FnContext \<Rightarrow> ('m, 'e, 'x) FnContext" where
  "add cmp s t ctx = seq_append s (as_entry cmp t) ctx"

definition is_empty :: "addr \<Rightarrow> ('m, 'e, 'x) FnContext \<Rightarrow> bool" where
  "is_empty s ctx = (store ctx s = [])"

subsection \<open>Compilation\<close>

text \<open>
  \<open>get_cmds\<close> compiles every entry in order; a control-flow entry compiles its child
  sequences, which compile their entries, and so on. Nothing in the code bounds the depth
  (an entry added to its own child makes the recursion endless), so the model counts the
  depth down with fuel and returns \<open>None\<close> when the fuel is used up.
\<close>

fun run_thunk :: "('e \<Rightarrow> 'x) \<Rightarrow> ('m, 'e, 'x) thunk \<Rightarrow> ('m, 'x) CommandObj" where
  "run_thunk cmp (Const c) = c"
| "run_thunk cmp (GetDeclare d) = DeclareObj d"
| "run_thunk cmp (ReturnExpr e) = ReturnObj (Some (cmp e))"

definition Seq_compile :: "(addr \<Rightarrow> ('m, 'x) CommandObj list option) \<Rightarrow> addr \<Rightarrow> ('m, 'x) SequenceObj option" where
  "Seq_compile gc a = map_option SeqObj (gc a)"

definition Branch_compile :: "(addr \<Rightarrow> ('m, 'x) CommandObj list option) \<Rightarrow> ('e \<Rightarrow> 'x) \<Rightarrow> 'e Branch \<Rightarrow> ('m, 'x) CommandObj option" where
  "Branch_compile gc cmp b =
     (case Seq_compile gc (Branch_success b) of None \<Rightarrow> None
      | Some th \<Rightarrow> (case Seq_compile gc (Branch_failure b) of None \<Rightarrow> None
      | Some el \<Rightarrow> Some (BranchObj (cmp (Branch_condition b)) th el)))"

definition ForLoop_compile :: "(addr \<Rightarrow> ('m, 'x) CommandObj list option) \<Rightarrow> ('e \<Rightarrow> 'x) \<Rightarrow> 'e ForLoop \<Rightarrow> ('m, 'x) CommandObj option" where
  "ForLoop_compile gc cmp l =
     (case Seq_compile gc (ForLoop_loop l) of None \<Rightarrow> None
      | Some body \<Rightarrow>
          Some (ForObj (cmp (ForLoop_array l)) (get_index_ref (ForLoop_ix l))
                  (get_var_ref (ForLoop_val l)) body))"

definition WhileLoop_compile :: "(addr \<Rightarrow> ('m, 'x) CommandObj list option) \<Rightarrow> ('e \<Rightarrow> 'x) \<Rightarrow> 'e WhileLoop \<Rightarrow> ('m, 'x) CommandObj option" where
  "WhileLoop_compile gc cmp l =
     (case Seq_compile gc (WhileLoop_loop l) of None \<Rightarrow> None
      | Some body \<Rightarrow> Some (WhileObj (cmp (WhileLoop_condition l)) body))"

fun compile :: "(addr \<Rightarrow> ('m, 'x) CommandObj list option) \<Rightarrow> ('e \<Rightarrow> 'x) \<Rightarrow> ('m, 'e, 'x) Compilable \<Rightarrow> ('m, 'x) CommandObj option" where
  "compile gc cmp (CmdHelper t) = Some (run_thunk cmp t)"
| "compile gc cmp (CBranch b) = Branch_compile gc cmp b"
| "compile gc cmp (CForLoop l) = ForLoop_compile gc cmp l"
| "compile gc cmp (CWhileLoop l) = WhileLoop_compile gc cmp l"

primrec get_cmds :: "nat \<Rightarrow> ('e \<Rightarrow> 'x) \<Rightarrow> (addr \<Rightarrow> ('m, 'e, 'x) Compilable list) \<Rightarrow> addr \<Rightarrow> ('m, 'x) CommandObj list option" where
  "get_cmds 0 cmp st a = None"
| "get_cmds (Suc n) cmp st a = those (map (compile (get_cmds n cmp st) cmp) (st a))"

definition FnContext_compile :: "nat \<Rightarrow> ('e \<Rightarrow> 'x) \<Rightarrow> ('m, 'e, 'x) FnContext \<Rightarrow> ('m, 'x) SequenceObj option" where
  "FnContext_compile n cmp ctx =
     map_option (\<lambda>cmds. ScriptObj cmds (map fst (args ctx)) (map fst (keys ctx)))
       (get_cmds n cmp (store ctx) self_seq)"

subsection \<open>The control-flow factories\<close>

text \<open>
  The methods \<open>for_\<close>, \<open>if_\<close> and \<open>while_\<close> of \<open>Sequence\<close> are named \<open>Sequence_for\<close>,
  \<open>Sequence_if\<close> and \<open>Sequence_while\<close> here (a name cannot end in an underscore).
\<close>

definition add_loop :: "('m, 'e, 'x) FnContext \<Rightarrow> nat \<times> ('m, 'e, 'x) FnContext" where
  "add_loop ctx = (loops ctx, ctx\<lparr> loops := loops ctx + 1 \<rparr>)"

definition ForLoop_init :: "('m, 'e, 'x) FnContext \<Rightarrow> 'e \<Rightarrow> 'e ForLoop \<times> ('m, 'e, 'x) FnContext" where
  "ForLoop_init ctx array =
     (let (loop_ix, ctx1) = add_loop ctx;
          ix = IndexVariable loop_ix;
          val = ValueVariable loop_ix;
          (lp, ctx2) = Seq_init ctx1
      in (ForLoop ix val lp array, ctx2))"

definition Branch_init :: "('m option \<Rightarrow> 'e) \<Rightarrow> ('m, 'e, 'x) FnContext \<Rightarrow> 'm option \<Rightarrow> 'e Branch \<times> ('m, 'e, 'x) FnContext" where
  "Branch_init lit ctx condition =
     (let c = lit condition;
          (success, ctx1) = Seq_init ctx;
          (failure, ctx2) = Seq_init ctx1
      in (Branch c success failure, ctx2))"

definition WhileLoop_init :: "('m option \<Rightarrow> 'e) \<Rightarrow> ('m, 'e, 'x) FnContext \<Rightarrow> 'm option \<Rightarrow> 'e WhileLoop \<times> ('m, 'e, 'x) FnContext" where
  "WhileLoop_init lit ctx condition =
     (let c = lit condition;
          (lp, ctx1) = Seq_init ctx
      in (WhileLoop c lp, ctx1))"

definition Sequence_for :: "('e \<Rightarrow> 'x) \<Rightarrow> addr \<Rightarrow> 'e \<Rightarrow> ('m, 'e, 'x) FnContext \<Rightarrow> (addr \<times> IndexVariable \<times> ValueVariable) \<times> ('m, 'e, 'x) FnContext" where
  "Sequence_for cmp s array ctx =
     (let (loop, ctx1) = ForLoop_init ctx array;
          ctx2 = add cmp s (TCompilable (CForLoop loop)) ctx1
      in ((ForLoop_get_loop loop, ForLoop_get_index loop, ForLoop_get_value loop), ctx2))"

definition Sequence_if :: "('m option \<Rightarrow> 'e) \<Rightarrow> ('e \<Rightarrow> 'x) \<Rightarrow> addr \<Rightarrow> 'm option \<Rightarrow> ('m, 'e, 'x) FnContext \<Rightarrow> (addr \<times> addr) \<times> ('m, 'e, 'x) FnContext" where
  "Sequence_if lit cmp s condition ctx =
     (let (branch, ctx1) = Branch_init lit ctx condition;
          ctx2 = add cmp s (TCompilable (CBranch branch)) ctx1
      in ((Branch_get_success branch, Branch_get_failure branch), ctx2))"

definition Sequence_while :: "('m option \<Rightarrow> 'e) \<Rightarrow> ('e \<Rightarrow> 'x) \<Rightarrow> addr \<Rightarrow> 'm option \<Rightarrow> ('m, 'e, 'x) FnContext \<Rightarrow> addr \<times> ('m, 'e, 'x) FnContext" where
  "Sequence_while lit cmp s condition ctx =
     (let (loop, ctx1) = WhileLoop_init lit ctx condition;
          ctx2 = add cmp s (TCompilable (CWhileLoop loop)) ctx1
      in (WhileLoop_get_loop loop, ctx2))"

subsection \<open>Declarations of the script scope\<close>

text \<open>
  A call that raises returns the error together with the scope as the raise left it, so
  that what a failed call did to the scope can be stated.
\<close>

definition add_arg :: "('e \<Rightarrow> 'x) \<Rightarrow> string \<Rightarrow> ('m, 'e, 'x) FnContext \<Rightarrow> (error + JSONArg) \<times> ('m, 'e, 'x) FnContext" where
  "add_arg cmp name ctx =
     (if name \<in> anames ctx then (Inl (ValueError (''ambiguous arg name: '' @ name)), ctx)
      else
        let arg = JSONArg name (length (args ctx));
            ctx1 = ctx\<lparr> args := args ctx @ [(name, arg)] \<rparr>;
            ctx2 = ctx1\<lparr> anames := insert name (anames ctx1) \<rparr>;
            ctx3 = add cmp self_seq (TCompilable (CmdHelper (GetDeclare (DArg arg)))) ctx2
        in (Inr arg, ctx3))"

definition add_key :: "('e \<Rightarrow> 'x) \<Rightarrow> string \<Rightarrow> ('m, 'e, 'x) FnContext \<Rightarrow> (error + KeyVariable) \<times> ('m, 'e, 'x) FnContext" where
  "add_key cmp name ctx =
     (if name \<in> knames ctx then (Inl (ValueError (''ambiguous key name: '' @ name)), ctx)
      else
        let key = KeyVariable name (length (keys ctx));
            ctx1 = ctx\<lparr> keys := keys ctx @ [(name, key)] \<rparr>;
            ctx2 = ctx1\<lparr> knames := insert name (knames ctx1) \<rparr>;
            ctx3 = add cmp self_seq (TCompilable (CmdHelper (GetDeclare (DKey key)))) ctx2
        in (Inr key, ctx3))"

definition add_local :: "('e \<Rightarrow> 'x) \<Rightarrow> 'm option \<Rightarrow> ('m, 'e, 'x) FnContext \<Rightarrow> 'm LocalVariable \<times> ('m, 'e, 'x) FnContext" where
  "add_local cmp init ctx =
     (let local = LocalVariable init (length (locals ctx));
          ctx1 = ctx\<lparr> locals := locals ctx @ [local] \<rparr>;
          ctx2 = add cmp self_seq (TCompilable (CmdHelper (GetDeclare (DLocal local)))) ctx1
      in (local, ctx2))"

definition set_return_value :: "('m option \<Rightarrow> 'e) \<Rightarrow> ('e \<Rightarrow> 'x) \<Rightarrow> 'm option \<Rightarrow> ('m, 'e, 'x) FnContext \<Rightarrow> ('m, 'e, 'x) FnContext" where
  "set_return_value lit cmp v ctx =
     (if v = None then add cmp self_seq (TCompilable (CmdHelper (Const (ReturnObj None)))) ctx
      else
        let expr = lit v
        in add cmp self_seq (TCompilable (CmdHelper (ReturnExpr expr))) ctx)"

subsection \<open>Building sessions\<close>

text \<open>
  Several properties speak of everything a client builds in one scope, in the order it
  builds it. A building session is a list of calls of the builder's methods on one scope
  and its sequences; \<open>session\<close> performs them in order and collects what each call
  returned or raised. A call that raises leaves the session running, as a client that
  catches the exception would. These definitions are the client's side, not a part of
  seq.py; each call is performed by the function that models the method.
\<close>

datatype ('m, 'e, 'x) call =
    CallAdd addr "('m, 'e, 'x) add_term"
  | CallFor addr 'e
  | CallIf addr "'m option"
  | CallWhile addr "'m option"
  | CallAddArg string
  | CallAddKey string
  | CallAddLocal "'m option"
  | CallAddLoop
  | CallSetReturn "'m option"

datatype 'm outcome =
    Returned
  | ForHandles addr IndexVariable ValueVariable
  | IfHandles addr addr
  | WhileHandle addr
  | ArgHandle JSONArg
  | KeyHandle KeyVariable
  | LocalHandle "'m LocalVariable"
  | LoopId nat
  | Raised error

fun perform :: "('m option \<Rightarrow> 'e) \<Rightarrow> ('e \<Rightarrow> 'x) \<Rightarrow> ('m, 'e, 'x) call \<Rightarrow> ('m, 'e, 'x) FnContext \<Rightarrow> 'm outcome \<times> ('m, 'e, 'x) FnContext" where
  "perform lit cmp (CallAdd s t) ctx = (Returned, add cmp s t ctx)"
| "perform lit cmp (CallFor s array) ctx =
     (case Sequence_for cmp s array ctx of ((lp, ix, val), ctx') \<Rightarrow> (ForHandles lp ix val, ctx'))"
| "perform lit cmp (CallIf s c) ctx =
     (case Sequence_if lit cmp s c ctx of ((su, fa), ctx') \<Rightarrow> (IfHandles su fa, ctx'))"
| "perform lit cmp (CallWhile s c) ctx =
     (case Sequence_while lit cmp s c ctx of (lp, ctx') \<Rightarrow> (WhileHandle lp, ctx'))"
| "perform lit cmp (CallAddArg name) ctx =
     (case add_arg cmp name ctx of
        (Inl e, ctx') \<Rightarrow> (Raised e, ctx')
      | (Inr a, ctx') \<Rightarrow> (ArgHandle a, ctx'))"
| "perform lit cmp (CallAddKey name) ctx =
     (case add_key cmp name ctx of
        (Inl e, ctx') \<Rightarrow> (Raised e, ctx')
      | (Inr k, ctx') \<Rightarrow> (KeyHandle k, ctx'))"
| "perform lit cmp (CallAddLocal init) ctx =
     (case add_local cmp init ctx of (l, ctx') \<Rightarrow> (LocalHandle l, ctx'))"
| "perform lit cmp CallAddLoop ctx =
     (case add_loop ctx of (i, ctx') \<Rightarrow> (LoopId i, ctx'))"
| "perform lit cmp (CallSetReturn v) ctx = (Returned, set_return_value lit cmp v ctx)"

fun session :: "('m option \<Rightarrow> 'e) \<Rightarrow> ('e \<Rightarrow> 'x) \<Rightarrow> ('m, 'e, 'x) call list \<Rightarrow> ('m, 'e, 'x) FnContext \<Rightarrow> 'm outcome list \<times> ('m, 'e, 'x) FnContext" where
  "session lit cmp [] ctx = ([], ctx)"
| "session lit cmp (c # cs) ctx =
     (case perform lit cmp c ctx of (r, ctx1) \<Rightarrow>
        (case session lit cmp cs ctx1 of (rs, ctx2) \<Rightarrow> (r # rs, ctx2)))"

fun is_arg_outcome :: "'m outcome \<Rightarrow> bool" where
  "is_arg_outcome (ArgHandle a) = True"
| "is_arg_outcome _ = False"

fun is_key_outcome :: "'m outcome \<Rightarrow> bool" where
  "is_key_outcome (KeyHandle k) = True"
| "is_key_outcome _ = False"

fun allocates_loop :: "('m, 'e, 'x) call \<Rightarrow> bool" where
  "allocates_loop (CallFor s array) = True"
| "allocates_loop CallAddLoop = True"
| "allocates_loop _ = False"

section \<open>The builtin functions of the in-memory backend (redipy/memory/gfun.py)\<close>

subsection \<open>Values and the host's conversions\<close>

text \<open>
  A \<open>JSONType\<close> value is \<open>None\<close>, a boolean, an integer, a float, a string, a list or a
  dictionary. Python strings are modelled as \<open>string\<close>, a character standing for the
  code point of the same number (so the model covers the strings of code points below
  256). Floating-point arithmetic is not modelled: a finite float is a value of the
  opaque type \<open>'f\<close>, the three non-finite floats are constructors of their own, and what
  the interpreter does with a finite float (print it, truncate it, parse it from text,
  convert an integer to it) is taken from the record \<open>host\<close>, as is the text of a list
  or dictionary.
\<close>

datatype 'f pyfloat = Finite 'f | PosInf | NegInf | NaN

datatype 'f JSONType =
    JNone
  | JBool bool
  | JInt int
  | JFloat "'f pyfloat"
  | JStr string
  | JList "'f JSONType list"
  | JDict "(string \<times> 'f JSONType) list"

record 'f host =
  float_repr :: "'f \<Rightarrow> string"
  float_trunc :: "'f \<Rightarrow> int"
  float_parse :: "string \<Rightarrow> 'f pyfloat option"
  float_of_int :: "int \<Rightarrow> 'f option"
  container_str :: "'f JSONType \<Rightarrow> string"

text \<open>
  Modelled from the spec: \<open>ArgcSpec\<close> is declared in redipy.plugin, which is not part of
  the code under study; it is the arity contract, an exact count or a count together with
  an upper bound.
\<close>

record ArgcSpec =
  count :: nat
  at_most :: "nat option"

definition str_int :: "int \<Rightarrow> string" where
  "str_int i = (if i < 0 then CHR ''-'' # str_nat (nat (- i)) else str_nat (nat i))"

text \<open>The f-string \<open>f"{x}"\<close>: Python's \<open>str\<close> of the value.\<close>

fun py_str :: "'f host \<Rightarrow> 'f JSONType \<Rightarrow> string" where
  "py_str h JNone = ''None''"
| "py_str h (JBool b) = (if b then ''True'' else ''False'')"
| "py_str h (JInt i) = str_int i"
| "py_str h (JFloat (Finite f)) = float_repr h f"
| "py_str h (JFloat PosInf) = ''inf''"
| "py_str h (JFloat NegInf) = ''-inf''"
| "py_str h (JFloat NaN) = ''nan''"
| "py_str h (JStr s) = s"
| "py_str h (JList xs) = container_str h (JList xs)"
| "py_str h (JDict kvs) = container_str h (JDict kvs)"

text \<open>
  Python's \<open>int\<close> of a string, base ten: white space around, an optional sign, then
  decimal digits, single underscores allowed between digits. (The interpreter's limit on
  the number of digits of such a string is a setting of the interpreter and is not
  modelled.)
\<close>

definition is_space :: "char \<Rightarrow> bool" where
  "is_space c = (of_char c \<in> {9, 10, 11, 12, 13, 32, 133, 160 :: nat})"

definition is_digit :: "char \<Rightarrow> bool" where
  "is_digit c = (48 \<le> (of_char c :: nat) \<and> (of_char c :: nat) \<le> 57)"

definition digit_val :: "char \<Rightarrow> nat" where
  "digit_val c = of_char c - 48"

definition strip :: "string \<Rightarrow> string" where
  "strip s = rev (dropWhile is_space (rev (dropWhile is_space s)))"

fun digits_acc :: "nat \<Rightarrow> string \<Rightarrow> nat option" where
  "digits_acc acc [] = Some acc"
| "digits_acc acc [c] = (if is_digit c then Some (10 * acc + digit_val c) else None)"
| "digits_acc acc (c # d # ds) =
     (if is_digit c then digits_acc (10 * acc + digit_val c) (d # ds)
      else if c = CHR ''_'' \<and> is_digit d then digits_acc (10 * acc + digit_val d) ds
      else None)"

definition parse_digits :: "string \<Rightarrow> nat option" where
  "parse_digits s =
     (case s of [] \<Rightarrow> None
      | c # cs \<Rightarrow> if is_digit c then digits_acc (digit_val c) cs else None)"

definition int_of_str :: "string \<Rightarrow> int option" where
  "int_of_str s =
     (case strip s of
        [] \<Rightarrow> None
      | c # cs \<Rightarrow>
          if c = CHR ''-'' then map_option (\<lambda>n. - int n) (parse_digits cs)
          else if c = CHR ''+'' then map_option int (parse_digits cs)
          else map_option int (parse_digits (c # cs)))"

fun py_int :: "'f host \<Rightarrow> 'f JSONType \<Rightarrow> error + int" where
  "py_int h (JInt i) = Inr i"
| "py_int h (JBool b) = Inr (if b then 1 else 0)"
| "py_int h (JStr s) =
     (case int_of_str s of
        Some i \<Rightarrow> Inr i
      | None \<Rightarrow> Inl (ValueError ''invalid literal for int() with base 10''))"
| "py_int h (JFloat (Finite f)) = Inr (float_trunc h f)"
| "py_int h (JFloat NaN) = Inl (ValueError ''cannot convert float NaN to integer'')"
| "py_int h (JFloat PosInf) = Inl (OverflowError ''cannot convert float infinity to integer'')"
| "py_int h (JFloat NegInf) = Inl (OverflowError ''cannot convert float infinity to integer'')"
| "py_int h JNone = Inl (TypeError ''int() argument must be a string, a bytes-like object or a real number'')"
| "py_int h (JList xs) = Inl (TypeError ''int() argument must be a string, a bytes-like object or a real number'')"
| "py_int h (JDict kvs) = Inl (TypeError ''int() argument must be a string, a bytes-like object or a real number'')"



subsection \<open>string.find\<close>

text \<open>
  Python's \<open>str.find(sub, start)\<close>: a negative \<open>start\<close> counts from the end and is
  clipped at the beginning, a \<open>start\<close> beyond the end finds nothing, and the search runs
  from \<open>start\<close> to the right; the result is \<open>-1\<close> when nothing is found.
\<close>

fun search :: "'a list \<Rightarrow> 'a list \<Rightarrow> nat \<Rightarrow> nat option" where
  "search sub [] i = (if sub = [] then Some i else None)"
| "search sub (x # xs) i =
     (if take (length sub) (x # xs) = sub then Some i else search sub xs (Suc i))"

definition find_start :: "'a list \<Rightarrow> int option \<Rightarrow> int" where
  "find_start hay start =
     (case start of
        None \<Rightarrow> 0
      | Some k \<Rightarrow> if k < 0 then max 0 (k + int (length hay)) else k)"

definition str_find :: "'a list \<Rightarrow> 'a list \<Rightarrow> int option \<Rightarrow> int" where
  "str_find hay sub start =
     (let s0 = find_start hay start
      in if int (length hay) < s0 then - 1
         else (case search sub (drop (nat s0) hay) (nat s0) of
                 None \<Rightarrow> - 1
               | Some i \<Rightarrow> int i))"

text \<open>
  The notion the specification of the search uses: the needle \<open>sub\<close> occurs in \<open>hay\<close>
  at the (0-based) index \<open>i\<close>.
\<close>

definition occurs_at :: "'a list \<Rightarrow> 'a list \<Rightarrow> nat \<Rightarrow> bool" where
  "occurs_at hay sub i \<longleftrightarrow> i + length sub \<le> length hay \<and> take (length sub) (drop i hay) = sub"

definition GStringFindFn_name :: string where
  "GStringFindFn_name = ''string.find''"

definition GStringFindFn_argc :: ArgcSpec where
  "GStringFindFn_argc = \<lparr> count = 2, at_most = Some 3 \<rparr>"

definition find_result :: "int \<Rightarrow> 'f JSONType" where
  "find_result found_ix = (if found_ix < 0 then JNone else JInt found_ix)"

fun GStringFindFn_call :: "'f host \<Rightarrow> 'f JSONType list \<Rightarrow> error + 'f JSONType" where
  "GStringFindFn_call h [] = Inl (IndexError ''list index out of range'')"
| "GStringFindFn_call h [a0] = Inl (IndexError ''list index out of range'')"
| "GStringFindFn_call h [a0, a1] =
     Inr (find_result (str_find (py_str h a0) (py_str h a1) None))"
| "GStringFindFn_call h (a0 # a1 # a2 # rest) =
     (case py_int h a2 of
        Inl e \<Rightarrow> Inl e
      | Inr start \<Rightarrow> Inr (find_result (str_find (py_str h a0) (py_str h a1) (Some start))))"

subsection \<open>cjson.encode\<close>

text \<open>
  \<open>json.dumps\<close> of a string (the only kind of value the builtin hands to it): the string
  in double quotes, with the quote, the backslash and every character outside the
  printable ASCII range escaped. On a string the options \<open>sort_keys\<close>, \<open>indent\<close> and
  \<open>separators\<close> of the call change nothing.
\<close>

definition hex_digit :: "nat \<Rightarrow> char" where
  "hex_digit d = (if d < 10 then char_of (48 + d) else char_of (87 + d))"

definition escape_char :: "char \<Rightarrow> string" where
  "escape_char c =
     (let n = (of_char c :: nat) in
      if n = 34 then [CHR 0x5C, CHR 0x22]
      else if n = 92 then [CHR 0x5C, CHR 0x5C]
      else if n = 10 then [CHR 0x5C, CHR ''n'']
      else if n = 13 then [CHR 0x5C, CHR ''r'']
      else if n = 9 then [CHR 0x5C, CHR ''t'']
      else if n = 8 then [CHR 0x5C, CHR ''b'']
      else if n = 12 then [CHR 0x5C, CHR ''f'']
      else if 32 \<le> n \<and> n \<le> 126 then [c]
      else [CHR 0x5C, CHR ''u'', CHR ''0'', CHR ''0'', hex_digit (n div 16), hex_digit (n mod 16)])"

definition json_dumps_str :: "string \<Rightarrow> string" where
  "json_dumps_str s = CHR 0x22 # concat (map escape_char s) @ [CHR 0x22]"

definition GCJSONEncodeFn_name :: string where
  "GCJSONEncodeFn_name = ''cjson.encode''"

definition GCJSONEncodeFn_argc :: ArgcSpec where
  "GCJSONEncodeFn_argc = \<lparr> count = 1, at_most = None \<rparr>"

fun GCJSONEncodeFn_call :: "'f host \<Rightarrow> 'f JSONType list \<Rightarrow> error + 'f JSONType" where
  "GCJSONEncodeFn_call h [] = Inl (IndexError ''list index out of range'')"
| "GCJSONEncodeFn_call h (a0 # rest) = Inr (JStr (json_dumps_str (py_str h a0)))"

subsection \<open>tonumber\<close>

definition GToNumberFn_name :: string where
  "GToNumberFn_name = ''tonumber''"

definition GToNumberFn_argc :: ArgcSpec where
  "GToNumberFn_argc = \<lparr> count = 1, at_most = None \<rparr>"

fun caught :: "error \<Rightarrow> bool" where
  "caught (ValueError m) = True"
| "caught (TypeError m) = True"
| "caught _ = False"


section \<open>Facts about the store and about compilation\<close>

lemma those_map_Some_id: "those (map Some ys) = Some ys"
  by (induction ys) auto

lemma those_eq_Some: "those xs = Some ys \<longleftrightarrow> xs = map Some ys"
proof
  show "those xs = Some ys \<Longrightarrow> xs = map Some ys"
  proof (induction xs arbitrary: ys)
    case Nil
    then show ?case by simp
  next
    case (Cons x xs)
    then show ?case by (auto split: option.splits)
  qed
next
  show "xs = map Some ys \<Longrightarrow> those xs = Some ys"
    by (simp add: those_map_Some_id)
qed

lemma those_map_Some:
  "those (map f xs) = Some ys \<longleftrightarrow>
     length ys = length xs \<and> (\<forall>i<length xs. f (xs ! i) = Some (ys ! i))"
  by (auto simp: those_eq_Some list_eq_iff_nth_eq)

lemma store_seq_append [simp]:
  "store (seq_append s c ctx) = (store ctx)(s := store ctx s @ [c])"
  by (simp add: seq_append_def)

lemma store_add [simp]:
  "store (add cmp s t ctx) = (store ctx)(s := store ctx s @ [as_entry cmp t])"
  by (simp add: add_def)

lemma add_frame [simp]:
  "next_seq (add cmp s t ctx) = next_seq ctx"
  "args (add cmp s t ctx) = args ctx"
  "keys (add cmp s t ctx) = keys ctx"
  "anames (add cmp s t ctx) = anames ctx"
  "knames (add cmp s t ctx) = knames ctx"
  "locals (add cmp s t ctx) = locals ctx"
  "loops (add cmp s t ctx) = loops ctx"
  by (simp_all add: add_def seq_append_def)

lemma store_fold_add:
  "store (fold (add cmp s) ts ctx) = (store ctx)(s := store ctx s @ map (as_entry cmp) ts)"
  by (induction ts arbitrary: ctx) auto

lemma get_cmds_Suc_iff:
  "get_cmds (Suc n) cmp st a = Some cmds \<longleftrightarrow>
     length cmds = length (st a) \<and>
     (\<forall>i<length (st a). compile (get_cmds n cmp st) cmp (st a ! i) = Some (cmds ! i))"
  by (simp add: those_map_Some)

lemma get_cmds_exprs:
  "st a = map (as_entry cmp) (map TExpr es) \<Longrightarrow>
     get_cmds (Suc n) cmp st a = Some (map (\<lambda>e. StmtObj (cmp e)) es)"
  by (simp add: those_eq_Some comp_def)

lemma Seq_init_simps [simp]:
  "fst (Seq_init ctx) = next_seq ctx"
  "store (snd (Seq_init ctx)) = (store ctx)(next_seq ctx := [])"
  "next_seq (snd (Seq_init ctx)) = Suc (next_seq ctx)"
  "args (snd (Seq_init ctx)) = args ctx"
  "keys (snd (Seq_init ctx)) = keys ctx"
  "anames (snd (Seq_init ctx)) = anames ctx"
  "knames (snd (Seq_init ctx)) = knames ctx"
  "locals (snd (Seq_init ctx)) = locals ctx"
  "loops (snd (Seq_init ctx)) = loops ctx"
  by (simp_all add: Seq_init_def)

lemma Sequence_for_fst:
  "fst (Sequence_for cmp s array ctx) = (next_seq ctx, IndexVariable (loops ctx), ValueVariable (loops ctx))"
  by (simp add: Sequence_for_def ForLoop_init_def add_loop_def Seq_init_def Let_def
      ForLoop_get_loop_def ForLoop_get_index_def ForLoop_get_value_def split_def)

lemma Sequence_for_snd [simp]:
  "store (snd (Sequence_for cmp s array ctx)) =
     (store ctx)(next_seq ctx := [],
       s := ((store ctx)(next_seq ctx := [])) s @
          [CForLoop (ForLoop (IndexVariable (loops ctx)) (ValueVariable (loops ctx)) (next_seq ctx) array)])"
  "next_seq (snd (Sequence_for cmp s array ctx)) = Suc (next_seq ctx)"
  "args (snd (Sequence_for cmp s array ctx)) = args ctx"
  "keys (snd (Sequence_for cmp s array ctx)) = keys ctx"
  "anames (snd (Sequence_for cmp s array ctx)) = anames ctx"
  "knames (snd (Sequence_for cmp s array ctx)) = knames ctx"
  "locals (snd (Sequence_for cmp s array ctx)) = locals ctx"
  "loops (snd (Sequence_for cmp s array ctx)) = Suc (loops ctx)"
  by (simp_all add: Sequence_for_def ForLoop_init_def add_loop_def Seq_init_def Let_def split_def)

lemma Sequence_if_fst:
  "fst (Sequence_if lit cmp s c ctx) = (next_seq ctx, Suc (next_seq ctx))"
  by (simp add: Sequence_if_def Branch_init_def Seq_init_def Let_def
      Branch_get_success_def Branch_get_failure_def split_def)

lemma Sequence_if_snd [simp]:
  "store (snd (Sequence_if lit cmp s c ctx)) =
     (store ctx)(next_seq ctx := [], Suc (next_seq ctx) := [],
       s := ((store ctx)(next_seq ctx := [], Suc (next_seq ctx) := [])) s @
          [CBranch (Branch (lit c) (next_seq ctx) (Suc (next_seq ctx)))])"
  "next_seq (snd (Sequence_if lit cmp s c ctx)) = Suc (Suc (next_seq ctx))"
  "args (snd (Sequence_if lit cmp s c ctx)) = args ctx"
  "keys (snd (Sequence_if lit cmp s c ctx)) = keys ctx"
  "anames (snd (Sequence_if lit cmp s c ctx)) = anames ctx"
  "knames (snd (Sequence_if lit cmp s c ctx)) = knames ctx"
  "locals (snd (Sequence_if lit cmp s c ctx)) = locals ctx"
  "loops (snd (Sequence_if lit cmp s c ctx)) = loops ctx"
  by (simp_all add: Sequence_if_def Branch_init_def Seq_init_def Let_def split_def)

lemma Sequence_while_fst:
  "fst (Sequence_while lit cmp s c ctx) = next_seq ctx"
  by (simp add: Sequence_while_def WhileLoop_init_def Seq_init_def Let_def
      WhileLoop_get_loop_def split_def)

lemma Sequence_while_snd [simp]:
  "store (snd (Sequence_while lit cmp s c ctx)) =
     (store ctx)(next_seq ctx := [],
       s := ((store ctx)(next_seq ctx := [])) s @ [CWhileLoop (WhileLoop (lit c) (next_seq ctx))])"
  "next_seq (snd (Sequence_while lit cmp s c ctx)) = Suc (next_seq ctx)"
  "args (snd (Sequence_while lit cmp s c ctx)) = args ctx"
  "keys (snd (Sequence_while lit cmp s c ctx)) = keys ctx"
  "anames (snd (Sequence_while lit cmp s c ctx)) = anames ctx"
  "knames (snd (Sequence_while lit cmp s c ctx)) = knames ctx"
  "locals (snd (Sequence_while lit cmp s c ctx)) = locals ctx"
  "loops (snd (Sequence_while lit cmp s c ctx)) = loops ctx"
  by (simp_all add: Sequence_while_def WhileLoop_init_def Seq_init_def Let_def split_def)

lemma add_arg_fresh:
  "name \<notin> anames ctx \<Longrightarrow>
     fst (add_arg cmp name ctx) = Inr (JSONArg name (length (args ctx))) \<and>
     store (snd (add_arg cmp name ctx)) =
       (store ctx)(self_seq := store ctx self_seq @
          [CmdHelper (GetDeclare (DArg (JSONArg name (length (args ctx)))))]) \<and>
     args (snd (add_arg cmp name ctx)) = args ctx @ [(name, JSONArg name (length (args ctx)))] \<and>
     anames (snd (add_arg cmp name ctx)) = insert name (anames ctx) \<and>
     keys (snd (add_arg cmp name ctx)) = keys ctx \<and>
     knames (snd (add_arg cmp name ctx)) = knames ctx \<and>
     next_seq (snd (add_arg cmp name ctx)) = next_seq ctx \<and>
     locals (snd (add_arg cmp name ctx)) = locals ctx \<and>
     loops (snd (add_arg cmp name ctx)) = loops ctx"
  by (simp add: add_arg_def Let_def)

lemma add_arg_dup:
  "name \<in> anames ctx \<Longrightarrow>
     add_arg cmp name ctx = (Inl (ValueError (''ambiguous arg name: '' @ name)), ctx)"
  by (simp add: add_arg_def)

lemma add_key_fresh:
  "name \<notin> knames ctx \<Longrightarrow>
     fst (add_key cmp name ctx) = Inr (KeyVariable name (length (keys ctx))) \<and>
     store (snd (add_key cmp name ctx)) =
       (store ctx)(self_seq := store ctx self_seq @
          [CmdHelper (GetDeclare (DKey (KeyVariable name (length (keys ctx)))))]) \<and>
     keys (snd (add_key cmp name ctx)) = keys ctx @ [(name, KeyVariable name (length (keys ctx)))] \<and>
     knames (snd (add_key cmp name ctx)) = insert name (knames ctx) \<and>
     args (snd (add_key cmp name ctx)) = args ctx \<and>
     anames (snd (add_key cmp name ctx)) = anames ctx \<and>
     next_seq (snd (add_key cmp name ctx)) = next_seq ctx \<and>
     locals (snd (add_key cmp name ctx)) = locals ctx \<and>
     loops (snd (add_key cmp name ctx)) = loops ctx"
  by (simp add: add_key_def Let_def)

lemma add_key_dup:
  "name \<in> knames ctx \<Longrightarrow>
     add_key cmp name ctx = (Inl (ValueError (''ambiguous key name: '' @ name)), ctx)"
  by (simp add: add_key_def)

text \<open>What one call does to the counters and the name sets.\<close>

lemma perform_loops:
  "loops (snd (perform lit cmp c ctx)) = loops ctx + (if allocates_loop c then 1 else 0)"
  by (cases c)
    (auto simp: split_def add_loop_def add_local_def set_return_value_def Let_def
      add_arg_def add_key_def split: sum.splits)

lemma perform_args_length:
  "length (args (snd (perform lit cmp c ctx))) =
     length (args ctx) + (if is_arg_outcome (fst (perform lit cmp c ctx)) then 1 else 0)"
  by (cases c)
    (auto simp: split_def add_loop_def add_local_def set_return_value_def Let_def
      add_arg_def add_key_def split: sum.splits)

lemma perform_keys_length:
  "length (keys (snd (perform lit cmp c ctx))) =
     length (keys ctx) + (if is_key_outcome (fst (perform lit cmp c ctx)) then 1 else 0)"
  by (cases c)
    (auto simp: split_def add_loop_def add_local_def set_return_value_def Let_def
      add_arg_def add_key_def split: sum.splits)

lemma perform_anames:
  "anames (snd (perform lit cmp c ctx)) = anames ctx \<union> {n. c = CallAddArg n}"
  by (cases c)
    (auto simp: split_def add_loop_def add_local_def set_return_value_def Let_def
      add_arg_def add_key_def split: sum.splits)

lemma perform_knames:
  "knames (snd (perform lit cmp c ctx)) = knames ctx \<union> {n. c = CallAddKey n}"
  by (cases c)
    (auto simp: split_def add_loop_def add_local_def set_return_value_def Let_def
      add_arg_def add_key_def split: sum.splits)


lemma session_length [simp]: "length (fst (session lit cmp cs ctx)) = length cs"
  by (induction cs arbitrary: ctx) (auto simp: split_def)

lemma session_append:
  "session lit cmp (xs @ ys) ctx =
     (fst (session lit cmp xs ctx) @ fst (session lit cmp ys (snd (session lit cmp xs ctx))),
      snd (session lit cmp ys (snd (session lit cmp xs ctx))))"
  by (induction xs arbitrary: ctx) (auto simp: split_def)

lemma session_take:
  "fst (session lit cmp (take i cs) ctx) = take i (fst (session lit cmp cs ctx))"
proof (induction cs arbitrary: i ctx)
  case Nil
  then show ?case by simp
next
  case (Cons c cs)
  then show ?case by (cases i) (simp_all add: split_def)
qed

lemma session_nth:
  assumes "i < length cs"
  shows "fst (session lit cmp cs ctx) ! i =
           fst (perform lit cmp (cs ! i) (snd (session lit cmp (take i cs) ctx)))"
proof -
  have cs: "cs = take i cs @ cs ! i # drop (Suc i) cs"
    using assms by (simp add: id_take_nth_drop)
  have "fst (session lit cmp cs ctx) ! i =
      fst (session lit cmp (take i cs @ cs ! i # drop (Suc i) cs) ctx) ! i"
    using cs by simp
  also have "\<dots> = fst (perform lit cmp (cs ! i) (snd (session lit cmp (take i cs) ctx)))"
    unfolding session_append using assms by (simp add: nth_append split_def)
  finally show ?thesis .
qed

lemma session_loops:
  "loops (snd (session lit cmp cs ctx)) = loops ctx + length (filter allocates_loop cs)"
  by (induction cs arbitrary: ctx) (auto simp: split_def perform_loops)

lemma session_args_length:
  "length (args (snd (session lit cmp cs ctx))) =
     length (args ctx) + length (filter is_arg_outcome (fst (session lit cmp cs ctx)))"
  by (induction cs arbitrary: ctx) (auto simp: split_def perform_args_length)

lemma session_keys_length:
  "length (keys (snd (session lit cmp cs ctx))) =
     length (keys ctx) + length (filter is_key_outcome (fst (session lit cmp cs ctx)))"
  by (induction cs arbitrary: ctx) (auto simp: split_def perform_keys_length)

lemma session_anames:
  "anames (snd (session lit cmp cs ctx)) = anames ctx \<union> {n. CallAddArg n \<in> set cs}"
  by (induction cs arbitrary: ctx) (auto simp: split_def perform_anames)

lemma session_knames:
  "knames (snd (session lit cmp cs ctx)) = knames ctx \<union> {n. CallAddKey n \<in> set cs}"
  by (induction cs arbitrary: ctx) (auto simp: split_def perform_knames)

lemma session_for_outcome:
  assumes "i < length cs" "cs ! i = CallFor s array"
  shows "fst (session lit cmp cs ctx) ! i =
     ForHandles (next_seq (snd (session lit cmp (take i cs) ctx)))
       (IndexVariable (loops ctx + length (filter allocates_loop (take i cs))))
       (ValueVariable (loops ctx + length (filter allocates_loop (take i cs))))"
  using assms by (simp add: session_nth split_def Sequence_for_fst session_loops)

lemma session_arg_outcome:
  assumes "i < length cs" "cs ! i = CallAddArg name"
  shows "fst (session lit cmp cs ctx) ! i =
     (if name \<in> anames ctx \<or> CallAddArg name \<in> set (take i cs)
      then Raised (ValueError (''ambiguous arg name: '' @ name))
      else ArgHandle (JSONArg name (length (args ctx) +
             length (filter is_arg_outcome (take i (fst (session lit cmp cs ctx)))))))"
proof -
  let ?c = "snd (session lit cmp (take i cs) ctx)"
  have an: "anames ?c = anames ctx \<union> {n. CallAddArg n \<in> set (take i cs)}"
    by (rule session_anames)
  have len: "length (args ?c) = length (args ctx) +
      length (filter is_arg_outcome (take i (fst (session lit cmp cs ctx))))"
    by (simp add: session_args_length session_take)
  show ?thesis
  proof (cases "name \<in> anames ?c")
    case True
    then show ?thesis using assms an by (simp add: session_nth add_arg_dup)
  next
    case False
    then show ?thesis using assms an len add_arg_fresh [OF False, of cmp]
      by (simp add: session_nth split_def split: sum.splits)
  qed
qed

lemma session_key_outcome:
  assumes "i < length cs" "cs ! i = CallAddKey name"
  shows "fst (session lit cmp cs ctx) ! i =
     (if name \<in> knames ctx \<or> CallAddKey name \<in> set (take i cs)
      then Raised (ValueError (''ambiguous key name: '' @ name))
      else KeyHandle (KeyVariable name (length (keys ctx) +
             length (filter is_key_outcome (take i (fst (session lit cmp cs ctx)))))))"
proof -
  let ?c = "snd (session lit cmp (take i cs) ctx)"
  have an: "knames ?c = knames ctx \<union> {n. CallAddKey n \<in> set (take i cs)}"
    by (rule session_knames)
  have len: "length (keys ?c) = length (keys ctx) +
      length (filter is_key_outcome (take i (fst (session lit cmp cs ctx))))"
    by (simp add: session_keys_length session_take)
  show ?thesis
  proof (cases "name \<in> knames ?c")
    case True
    then show ?thesis using assms an by (simp add: session_nth add_key_dup)
  next
    case False
    then show ?thesis using assms an len add_key_fresh [OF False, of cmp]
      by (simp add: session_nth split_def split: sum.splits)
  qed
qed


lemma digit_char_inj: "d < 10 \<Longrightarrow> d' < 10 \<Longrightarrow> digit_char d = digit_char d' \<longleftrightarrow> d = d'"
  by (auto simp: digit_char_def char_of_eq_iff take_bit_nat_eq_self)

lemma str_nat_not_Nil [simp]: "str_nat n \<noteq> []"
  by (subst str_nat.simps) simp

lemma str_nat_not_Nil' [simp]: "[] \<noteq> str_nat n"
  by (subst str_nat.simps) simp

lemma str_nat_small: "n < 10 \<Longrightarrow> str_nat n = [digit_char n]"
  by (subst str_nat.simps) simp

lemma str_nat_big: "\<not> n < 10 \<Longrightarrow> str_nat n = str_nat (n div 10) @ [digit_char (n mod 10)]"
  by (subst str_nat.simps) simp

lemma str_nat_inj: "str_nat n = str_nat m \<Longrightarrow> n = m"
proof (induction n arbitrary: m rule: less_induct)
  case (less n)
  show ?case
  proof (cases "n < 10")
    case n: True
    show ?thesis
    proof (cases "m < 10")
      case True
      with n less.prems show ?thesis by (simp add: str_nat_small digit_char_inj)
    next
      case False
      with n less.prems show ?thesis by (simp add: str_nat_small str_nat_big)
    qed
  next
    case n: False
    show ?thesis
    proof (cases "m < 10")
      case True
      with n less.prems show ?thesis by (simp add: str_nat_small str_nat_big)
    next
      case False
      with n less.prems have eq: "str_nat (n div 10) = str_nat (m div 10)"
        and d: "digit_char (n mod 10) = digit_char (m mod 10)"
        by (simp_all add: str_nat_big)
      from n have "n div 10 < n" by simp
      from less.IH [OF this eq] have "n div 10 = m div 10" .
      moreover from d have "n mod 10 = m mod 10" by (simp add: digit_char_inj)
      ultimately show ?thesis by (metis div_mult_mod_eq)
    qed
  qed
qed

lemma filter_take_mono:
  assumes "i < j" "i < length cs" "P (cs ! i)"
  shows "length (filter P (take i cs)) < length (filter P (take j cs))"
proof -
  have d: "drop i cs = cs ! i # drop (Suc i) cs"
    using assms(2) by (simp add: Cons_nth_drop_Suc)
  from assms(1) obtain d' where d': "j = i + Suc d'"
    by (auto simp: less_iff_Suc_add)
  have "take j cs = take i cs @ take (Suc d') (drop i cs)"
    unfolding d' by (rule take_add)
  also have "\<dots> = take i cs @ cs ! i # take d' (drop (Suc i) cs)"
    by (simp only: d take_Suc_Cons)
  finally show ?thesis using assms(3) by simp
qed

lemma perform_ForHandles:
  "fst (perform lit cmp c ctx) = ForHandles lp ix val \<Longrightarrow> \<exists>s array. c = CallFor s array"
  by (cases c) (auto simp: split_def split: sum.splits)

lemma those_append:
  "those (xs @ ys) =
     (case those xs of None \<Rightarrow> None
      | Some a \<Rightarrow> (case those ys of None \<Rightarrow> None | Some b \<Rightarrow> Some (a @ b)))"
  by (induction xs) (auto split: option.splits)

lemma get_cmds_snoc:
  "st s = old @ [c] \<Longrightarrow>
     get_cmds (Suc m) cmp st s =
       (case those (map (compile (get_cmds m cmp st) cmp) old) of None \<Rightarrow> None
        | Some done \<Rightarrow> (case compile (get_cmds m cmp st) cmp c of None \<Rightarrow> None
        | Some r \<Rightarrow> Some (done @ [r])))"
  by (simp add: those_append split: option.splits)

lemma ForLoop_compile_body:
  "ForLoop_compile (get_cmds (Suc n) cmp st) cmp (ForLoop ix val lp array) =
     (case those (map (compile (get_cmds n cmp st) cmp) (st lp)) of None \<Rightarrow> None
      | Some body \<Rightarrow> Some (ForObj (cmp array) (get_index_ref ix) (get_var_ref val) (SeqObj body)))"
  by (simp add: ForLoop_compile_def Seq_compile_def split: option.splits)

lemma WhileLoop_compile_body:
  "WhileLoop_compile (get_cmds (Suc n) cmp st) cmp (WhileLoop c lp) =
     (case those (map (compile (get_cmds n cmp st) cmp) (st lp)) of None \<Rightarrow> None
      | Some body \<Rightarrow> Some (WhileObj (cmp c) (SeqObj body)))"
  by (simp add: WhileLoop_compile_def Seq_compile_def split: option.splits)

lemma Branch_compile_body:
  "Branch_compile (get_cmds (Suc n) cmp st) cmp (Branch c su fa) =
     (case those (map (compile (get_cmds n cmp st) cmp) (st su)) of None \<Rightarrow> None
      | Some th \<Rightarrow> (case those (map (compile (get_cmds n cmp st) cmp) (st fa)) of None \<Rightarrow> None
      | Some el \<Rightarrow> Some (BranchObj (cmp c) (SeqObj th) (SeqObj el))))"
  by (simp add: Branch_compile_def Seq_compile_def split: option.splits)

lemma for_appends_node:
  assumes "s < next_seq ctx"
  shows "case Sequence_for cmp s array ctx of ((lp, ix, val), ctx1) \<Rightarrow>
      lp = next_seq ctx \<and> lp \<noteq> s \<and>
      store ctx1 s = store ctx s @ [CForLoop (ForLoop ix val lp array)] \<and>
      store ctx1 lp = [] \<and>
      (\<forall>a. a \<noteq> s \<and> a \<noteq> lp \<longrightarrow> store ctx1 a = store ctx a) \<and>
      (\<forall>st. compile (get_cmds n cmp st) cmp (CForLoop (ForLoop ix val lp array)) =
         map_option (\<lambda>body. ForObj (cmp array) (get_index_ref ix) (get_var_ref val) (SeqObj body))
           (get_cmds n cmp st lp)) \<and>
      store (fold (add cmp lp) ts ctx1) s = store ctx s @ [CForLoop (ForLoop ix val lp array)] \<and>
      store (fold (add cmp lp) ts ctx1) lp = map (as_entry cmp) ts \<and>
      get_cmds (Suc (Suc n)) cmp (store (fold (add cmp lp) ts ctx1)) s =
        (case those (map (compile (get_cmds (Suc n) cmp (store (fold (add cmp lp) ts ctx1))) cmp)
                 (store ctx s)) of None \<Rightarrow> None
         | Some done \<Rightarrow>
            (case those (map (compile (get_cmds n cmp (store (fold (add cmp lp) ts ctx1))) cmp)
                 (map (as_entry cmp) ts)) of None \<Rightarrow> None
             | Some body \<Rightarrow>
                Some (done @ [ForObj (cmp array) (get_index_ref ix) (get_var_ref val) (SeqObj body)])))"
proof -
  let ?lp = "next_seq ctx"
  let ?ix = "IndexVariable (loops ctx)"
  let ?val = "ValueVariable (loops ctx)"
  let ?node = "CForLoop (ForLoop ?ix ?val ?lp array)"
  let ?ctx1 = "snd (Sequence_for cmp s array ctx)"
  let ?ctx2 = "fold (add cmp ?lp) ts ?ctx1"
  from assms have ne: "?lp \<noteq> s" by simp
  have s1: "store ?ctx1 s = store ctx s @ [?node]" using ne by simp
  have l1: "store ?ctx1 ?lp = []" using ne by simp
  have o1: "\<forall>a. a \<noteq> s \<and> a \<noteq> ?lp \<longrightarrow> store ?ctx1 a = store ctx a" by simp
  have c1: "\<forall>st. compile (get_cmds n cmp st) cmp ?node =
         map_option (\<lambda>body. ForObj (cmp array) (get_index_ref ?ix) (get_var_ref ?val) (SeqObj body))
           (get_cmds n cmp st ?lp)"
    by (simp add: ForLoop_compile_def Seq_compile_def option.map_comp comp_def
        split: option.splits)
  have s2: "store ?ctx2 s = store ctx s @ [?node]"
    using ne s1 by (simp add: store_fold_add)
  have l2: "store ?ctx2 ?lp = map (as_entry cmp) ts"
    using l1 by (simp add: store_fold_add)
  have g: "get_cmds (Suc (Suc n)) cmp (store ?ctx2) s =
        (case those (map (compile (get_cmds (Suc n) cmp (store ?ctx2)) cmp) (store ctx s)) of
           None \<Rightarrow> None
         | Some done \<Rightarrow>
            (case those (map (compile (get_cmds n cmp (store ?ctx2)) cmp) (map (as_entry cmp) ts)) of
               None \<Rightarrow> None
             | Some body \<Rightarrow>
                Some (done @ [ForObj (cmp array) (get_index_ref ?ix) (get_var_ref ?val) (SeqObj body)])))"
    unfolding get_cmds_snoc [of "store ?ctx2" s "store ctx s" ?node "Suc n" cmp, OF s2]
      compile.simps ForLoop_compile_body l2
    by (simp split: option.splits)
  show ?thesis
    unfolding split_def Sequence_for_fst fst_conv snd_conv
    by (intro conjI refl ne s1 l1 o1 c1 s2 l2 g)
qed


lemma if_appends_node:
  assumes "s < next_seq ctx"
  shows "case Sequence_if lit cmp s c ctx of ((su, fa), ctx1) \<Rightarrow>
      su = next_seq ctx \<and> fa = Suc (next_seq ctx) \<and> su \<noteq> s \<and> fa \<noteq> s \<and>
      store ctx1 s = store ctx s @ [CBranch (Branch (lit c) su fa)] \<and>
      store ctx1 su = [] \<and> store ctx1 fa = [] \<and>
      (\<forall>a. a \<noteq> s \<and> a \<noteq> su \<and> a \<noteq> fa \<longrightarrow> store ctx1 a = store ctx a) \<and>
      (\<forall>st. compile (get_cmds n cmp st) cmp (CBranch (Branch (lit c) su fa)) =
         (case get_cmds n cmp st su of None \<Rightarrow> None
          | Some th \<Rightarrow> (case get_cmds n cmp st fa of None \<Rightarrow> None
          | Some el \<Rightarrow> Some (BranchObj (cmp (lit c)) (SeqObj th) (SeqObj el))))) \<and>
      store (fold (add cmp fa) fs (fold (add cmp su) ts ctx1)) s =
        store ctx s @ [CBranch (Branch (lit c) su fa)] \<and>
      store (fold (add cmp fa) fs (fold (add cmp su) ts ctx1)) su = map (as_entry cmp) ts \<and>
      store (fold (add cmp fa) fs (fold (add cmp su) ts ctx1)) fa = map (as_entry cmp) fs \<and>
      get_cmds (Suc (Suc n)) cmp (store (fold (add cmp fa) fs (fold (add cmp su) ts ctx1))) s =
        (case those (map (compile (get_cmds (Suc n) cmp
                 (store (fold (add cmp fa) fs (fold (add cmp su) ts ctx1)))) cmp)
                 (store ctx s)) of None \<Rightarrow> None
         | Some done \<Rightarrow>
            (case those (map (compile (get_cmds n cmp
                 (store (fold (add cmp fa) fs (fold (add cmp su) ts ctx1)))) cmp)
                 (map (as_entry cmp) ts)) of None \<Rightarrow> None
             | Some th \<Rightarrow>
                (case those (map (compile (get_cmds n cmp
                     (store (fold (add cmp fa) fs (fold (add cmp su) ts ctx1)))) cmp)
                     (map (as_entry cmp) fs)) of None \<Rightarrow> None
                 | Some el \<Rightarrow>
                    Some (done @ [BranchObj (cmp (lit c)) (SeqObj th) (SeqObj el)]))))"
proof -
  let ?su = "next_seq ctx"
  let ?fa = "Suc (next_seq ctx)"
  let ?node = "CBranch (Branch (lit c) ?su ?fa)"
  let ?ctx1 = "snd (Sequence_if lit cmp s c ctx)"
  let ?ctx2 = "fold (add cmp ?fa) fs (fold (add cmp ?su) ts ?ctx1)"
  from assms have ne: "?su \<noteq> s" and ne': "?fa \<noteq> s" by simp_all
  have s1: "store ?ctx1 s = store ctx s @ [?node]" using ne ne' by simp
  have l1: "store ?ctx1 ?su = []" using ne by simp
  have l1': "store ?ctx1 ?fa = []" using ne' by simp
  have o1: "\<forall>a. a \<noteq> s \<and> a \<noteq> ?su \<and> a \<noteq> ?fa \<longrightarrow> store ?ctx1 a = store ctx a" by simp
  have c1: "\<forall>st. compile (get_cmds n cmp st) cmp ?node =
         (case get_cmds n cmp st ?su of None \<Rightarrow> None
          | Some th \<Rightarrow> (case get_cmds n cmp st ?fa of None \<Rightarrow> None
          | Some el \<Rightarrow> Some (BranchObj (cmp (lit c)) (SeqObj th) (SeqObj el))))"
    by (simp add: Branch_compile_def Seq_compile_def split: option.splits)
  have s2: "store ?ctx2 s = store ctx s @ [?node]"
    unfolding store_fold_add using ne ne' by (simp add: s1 del: Sequence_if_snd)
  have l2: "store ?ctx2 ?su = map (as_entry cmp) ts"
    unfolding store_fold_add by (simp add: l1 del: Sequence_if_snd)
  have l2': "store ?ctx2 ?fa = map (as_entry cmp) fs"
    unfolding store_fold_add by (simp add: l1' del: Sequence_if_snd)
  have g: "get_cmds (Suc (Suc n)) cmp (store ?ctx2) s =
        (case those (map (compile (get_cmds (Suc n) cmp (store ?ctx2)) cmp) (store ctx s)) of
           None \<Rightarrow> None
         | Some done \<Rightarrow>
            (case those (map (compile (get_cmds n cmp (store ?ctx2)) cmp) (map (as_entry cmp) ts)) of
               None \<Rightarrow> None
             | Some th \<Rightarrow>
                (case those (map (compile (get_cmds n cmp (store ?ctx2)) cmp)
                     (map (as_entry cmp) fs)) of None \<Rightarrow> None
                 | Some el \<Rightarrow>
                    Some (done @ [BranchObj (cmp (lit c)) (SeqObj th) (SeqObj el)]))))"
    unfolding get_cmds_snoc [of "store ?ctx2" s "store ctx s" ?node "Suc n" cmp, OF s2]
      compile.simps Branch_compile_body l2 l2'
    by (simp split: option.splits)
  show ?thesis
    unfolding split_def Sequence_if_fst fst_conv snd_conv
    by (intro conjI refl ne ne' s1 l1 l1' o1 c1 s2 l2 l2' g)
qed

lemma while_appends_node:
  assumes "s < next_seq ctx"
  shows "case Sequence_while lit cmp s c ctx of (lp, ctx1) \<Rightarrow>
      lp = next_seq ctx \<and> lp \<noteq> s \<and>
      store ctx1 s = store ctx s @ [CWhileLoop (WhileLoop (lit c) lp)] \<and>
      store ctx1 lp = [] \<and>
      (\<forall>a. a \<noteq> s \<and> a \<noteq> lp \<longrightarrow> store ctx1 a = store ctx a) \<and>
      (\<forall>st. compile (get_cmds n cmp st) cmp (CWhileLoop (WhileLoop (lit c) lp)) =
         map_option (\<lambda>body. WhileObj (cmp (lit c)) (SeqObj body)) (get_cmds n cmp st lp)) \<and>
      store (fold (add cmp lp) ts ctx1) s = store ctx s @ [CWhileLoop (WhileLoop (lit c) lp)] \<and>
      store (fold (add cmp lp) ts ctx1) lp = map (as_entry cmp) ts \<and>
      get_cmds (Suc (Suc n)) cmp (store (fold (add cmp lp) ts ctx1)) s =
        (case those (map (compile (get_cmds (Suc n) cmp (store (fold (add cmp lp) ts ctx1))) cmp)
                 (store ctx s)) of None \<Rightarrow> None
         | Some done \<Rightarrow>
            (case those (map (compile (get_cmds n cmp (store (fold (add cmp lp) ts ctx1))) cmp)
                 (map (as_entry cmp) ts)) of None \<Rightarrow> None
             | Some body \<Rightarrow> Some (done @ [WhileObj (cmp (lit c)) (SeqObj body)])))"
proof -
  let ?lp = "next_seq ctx"
  let ?node = "CWhileLoop (WhileLoop (lit c) ?lp)"
  let ?ctx1 = "snd (Sequence_while lit cmp s c ctx)"
  let ?ctx2 = "fold (add cmp ?lp) ts ?ctx1"
  from assms have ne: "?lp \<noteq> s" by simp
  have s1: "store ?ctx1 s = store ctx s @ [?node]" using ne by simp
  have l1: "store ?ctx1 ?lp = []" using ne by simp
  have o1: "\<forall>a. a \<noteq> s \<and> a \<noteq> ?lp \<longrightarrow> store ?ctx1 a = store ctx a" by simp
  have c1: "\<forall>st. compile (get_cmds n cmp st) cmp ?node =
         map_option (\<lambda>body. WhileObj (cmp (lit c)) (SeqObj body)) (get_cmds n cmp st ?lp)"
    by (simp add: WhileLoop_compile_def Seq_compile_def split: option.splits)
  have s2: "store ?ctx2 s = store ctx s @ [?node]"
    using ne s1 by (simp add: store_fold_add)
  have l2: "store ?ctx2 ?lp = map (as_entry cmp) ts"
    using l1 by (simp add: store_fold_add)
  have g: "get_cmds (Suc (Suc n)) cmp (store ?ctx2) s =
        (case those (map (compile (get_cmds (Suc n) cmp (store ?ctx2)) cmp) (store ctx s)) of
           None \<Rightarrow> None
         | Some done \<Rightarrow>
            (case those (map (compile (get_cmds n cmp (store ?ctx2)) cmp) (map (as_entry cmp) ts)) of
               None \<Rightarrow> None
             | Some body \<Rightarrow> Some (done @ [WhileObj (cmp (lit c)) (SeqObj body)])))"
    unfolding get_cmds_snoc [of "store ?ctx2" s "store ctx s" ?node "Suc n" cmp, OF s2]
      compile.simps WhileLoop_compile_body l2
    by (simp split: option.splits)
  show ?thesis
    unfolding split_def Sequence_while_fst fst_conv snd_conv
    by (intro conjI refl ne s1 l1 o1 c1 s2 l2 g)
qed

lemma digit_char_0: "digit_char 0 = CHR ''0''"
  by code_simp

lemma take_eq_length: "take (length sub) xs = sub \<Longrightarrow> length sub \<le> length xs"
proof -
  assume h: "take (length sub) xs = sub"
  have "length (take (length sub) xs) = length sub" by (simp only: h)
  then show ?thesis by simp
qed

lemma occurs_at_0: "occurs_at xs sub 0 \<longleftrightarrow> take (length sub) xs = sub"
  by (auto simp: occurs_at_def dest: take_eq_length)

lemma occurs_at_Cons_Suc: "occurs_at (x # xs) sub (Suc j) \<longleftrightarrow> occurs_at xs sub j"
  by (simp add: occurs_at_def)

lemma occurs_at_Nil: "occurs_at [] sub j \<longleftrightarrow> sub = [] \<and> j = 0"
  by (auto simp: occurs_at_def)

lemma search_Some:
  "search sub xs i = Some k \<Longrightarrow>
     i \<le> k \<and> occurs_at xs sub (k - i) \<and> (\<forall>j<k - i. \<not> occurs_at xs sub j)"
proof (induction xs arbitrary: i)
  case Nil
  then show ?case by (auto simp: occurs_at_Nil split: if_splits)
next
  case (Cons x xs)
  show ?case
  proof (cases "take (length sub) (x # xs) = sub")
    case True
    with Cons.prems show ?thesis by (simp add: occurs_at_0)
  next
    case False
    with Cons.prems have s: "search sub xs (Suc i) = Some k" by simp
    from Cons.IH [OF s] have ik: "Suc i \<le> k" and occ: "occurs_at xs sub (k - Suc i)"
      and first: "\<forall>j<k - Suc i. \<not> occurs_at xs sub j" by simp_all
    from ik have k: "k - i = Suc (k - Suc i)" by simp
    have "\<not> occurs_at (x # xs) sub j" if "j < k - i" for j
    proof (cases j)
      case 0
      with False show ?thesis by (simp add: occurs_at_0)
    next
      case (Suc j')
      with that k first show ?thesis by (simp add: occurs_at_Cons_Suc)
    qed
    with ik occ k show ?thesis by (simp add: occurs_at_Cons_Suc)
  qed
qed

lemma search_None: "search sub xs i = None \<Longrightarrow> \<not> occurs_at xs sub j"
proof (induction xs arbitrary: i j)
  case Nil
  then show ?case by (auto simp: occurs_at_Nil split: if_splits)
next
  case (Cons x xs)
  then show ?case
    by (cases j) (auto simp: occurs_at_0 occurs_at_Cons_Suc split: if_splits)
qed

lemma occurs_at_drop:
  "s \<le> length hay \<Longrightarrow> occurs_at (drop s hay) sub j \<longleftrightarrow> occurs_at hay sub (s + j)"
  by (auto simp: occurs_at_def add.commute)


lemma find_start_nonneg: "0 \<le> find_start hay start"
  by (auto simp: find_start_def split: option.splits)

lemma find_start_None [simp]: "find_start hay None = 0"
  by (simp add: find_start_def)

lemma str_find_cases:
  assumes "0 \<le> find_start hay start"
  defines "s0 \<equiv> nat (find_start hay start)"
  shows "(str_find hay sub start = - 1 \<and> (\<forall>j\<ge>s0. \<not> occurs_at hay sub j)) \<or>
         (\<exists>k. str_find hay sub start = int k \<and> s0 \<le> k \<and> occurs_at hay sub k \<and>
              (\<forall>j. s0 \<le> j \<and> j < k \<longrightarrow> \<not> occurs_at hay sub j))"
proof (cases "int (length hay) < find_start hay start")
  case True
  then have "length hay < s0" using assms by simp
  then have "\<forall>j\<ge>s0. \<not> occurs_at hay sub j" by (auto simp: occurs_at_def)
  moreover from True have "str_find hay sub start = - 1" by (simp add: str_find_def)
  ultimately show ?thesis by blast
next
  case False
  then have le: "s0 \<le> length hay" using assms by simp
  show ?thesis
  proof (cases "search sub (drop s0 hay) s0")
    case None
    from search_None [OF None] have "\<forall>j. \<not> occurs_at (drop s0 hay) sub j" by blast
    then have "\<forall>j. \<not> occurs_at hay sub (s0 + j)" using le by (simp add: occurs_at_drop)
    then have "\<forall>j\<ge>s0. \<not> occurs_at hay sub j"
      by (metis le_add_diff_inverse)
    moreover from None False have "str_find hay sub start = - 1"
      by (simp add: str_find_def s0_def)
    ultimately show ?thesis by blast
  next
    case (Some k)
    from search_Some [OF Some] have k: "s0 \<le> k"
      and occ: "occurs_at (drop s0 hay) sub (k - s0)"
      and first: "\<forall>j<k - s0. \<not> occurs_at (drop s0 hay) sub j" by simp_all
    from occ k le have o: "occurs_at hay sub k" by (simp add: occurs_at_drop)
    have f: "\<not> occurs_at hay sub j" if "s0 \<le> j \<and> j < k" for j
    proof -
      from that have "j - s0 < k - s0" by arith
      with first have "\<not> occurs_at (drop s0 hay) sub (j - s0)" by blast
      with le that show ?thesis by (simp add: occurs_at_drop)
    qed
    from Some False have "str_find hay sub start = int k"
      by (simp add: str_find_def s0_def)
    with k o f show ?thesis by blast
  qed
qed

lemma str_find_None_iff:
  assumes "0 \<le> find_start hay start"
  shows "str_find hay sub start < 0 \<longleftrightarrow>
           (\<forall>j\<ge>nat (find_start hay start). \<not> occurs_at hay sub j)"
  using str_find_cases [OF assms, of sub] by (auto simp: not_less)

lemma str_find_Some_iff:
  assumes "0 \<le> find_start hay start"
  shows "str_find hay sub start = k \<and> 0 \<le> k \<longleftrightarrow>
           0 \<le> k \<and> nat (find_start hay start) \<le> nat k \<and> occurs_at hay sub (nat k) \<and>
           (\<forall>j. nat (find_start hay start) \<le> j \<and> j < nat k \<longrightarrow> \<not> occurs_at hay sub j)"
proof -
  let ?s0 = "nat (find_start hay start)"
  from str_find_cases [OF assms, of sub]
  consider (none) "str_find hay sub start = - 1" "\<forall>j\<ge>?s0. \<not> occurs_at hay sub j"
    | (some) m where "str_find hay sub start = int m" "?s0 \<le> m" "occurs_at hay sub m"
        "\<forall>j. ?s0 \<le> j \<and> j < m \<longrightarrow> \<not> occurs_at hay sub j"
    by blast
  then show ?thesis
  proof cases
    case none
    then show ?thesis by auto
  next
    case some
    show ?thesis
    proof
      assume "str_find hay sub start = k \<and> 0 \<le> k"
      with some show "0 \<le> k \<and> ?s0 \<le> nat k \<and> occurs_at hay sub (nat k) \<and>
           (\<forall>j. ?s0 \<le> j \<and> j < nat k \<longrightarrow> \<not> occurs_at hay sub j)"
        by auto
    next
      assume r: "0 \<le> k \<and> ?s0 \<le> nat k \<and> occurs_at hay sub (nat k) \<and>
           (\<forall>j. ?s0 \<le> j \<and> j < nat k \<longrightarrow> \<not> occurs_at hay sub j)"
      have "nat k = m"
      proof (rule ccontr)
        assume "nat k \<noteq> m"
        then consider "nat k < m" | "m < nat k" by arith
        then show False
        proof cases
          case 1
          with some(4) r show False by blast
        next
          case 2
          with some(2,3) r show False by blast
        qed
      qed
      with r some(1) show "str_find hay sub start = k \<and> 0 \<le> k" by auto
    qed
  qed
qed


lemma find_result_None: "find_result r = JNone \<longleftrightarrow> r < 0"
  by (simp add: find_result_def)

lemma find_result_Int: "find_result r = JInt k \<longleftrightarrow> r = k \<and> 0 \<le> k"
  by (auto simp: find_result_def)

lemma hex_digit_range:
  "d < 16 \<Longrightarrow> 48 \<le> (of_char (hex_digit d) :: nat) \<and> (of_char (hex_digit d) :: nat) \<le> 102"
  by (simp add: hex_digit_def)

lemma of_char_nibbles:
  "(of_char x :: nat) div 16 < 16" "(of_char x :: nat) mod 16 < 16"
  using nat_of_char_less_256 [of x] by arith+

lemma escape_char_printable:
  assumes "c \<in> set (escape_char x)"
  shows "32 \<le> (of_char c :: nat) \<and> (of_char c :: nat) \<le> 126"
proof -
  note h1 = hex_digit_range [OF of_char_nibbles(1), of x]
  note h2 = hex_digit_range [OF of_char_nibbles(2), of x]
  from assms h1 h2 show ?thesis
    by (auto simp: escape_char_def Let_def split: if_splits)
qed

lemma json_dumps_str_printable:
  "c \<in> set (json_dumps_str s) \<Longrightarrow> 32 \<le> (of_char c :: nat) \<and> (of_char c :: nat) \<le> 126"
  by (auto simp: json_dumps_str_def dest: escape_char_printable)

lemma hex_digit_not_space: "d < 16 \<Longrightarrow> hex_digit d \<noteq> CHR '' ''"
proof
  assume d: "d < 16" and e: "hex_digit d = CHR '' ''"
  from hex_digit_range [OF d] have "48 \<le> (of_char (hex_digit d) :: nat)" by simp
  then show False unfolding e by simp
qed

lemma escape_char_spaces:
  "filter (\<lambda>c. c = CHR '' '') (escape_char x) = (if x = CHR '' '' then [x] else [])"
proof -
  note h1 = hex_digit_not_space [OF of_char_nibbles(1), of x]
  note h2 = hex_digit_not_space [OF of_char_nibbles(2), of x]
  show ?thesis
  proof (cases "x = CHR '' ''")
    case True
    then show ?thesis by (simp add: escape_char_def)
  next
    case False
    with h1 h2 show ?thesis
      by (auto simp: escape_char_def Let_def)
  qed
qed

lemma concat_escape_spaces:
  "filter (\<lambda>c. c = CHR '' '') (concat (map escape_char s)) = filter (\<lambda>c. c = CHR '' '') s"
  by (induction s) (auto simp: escape_char_spaces)

lemma json_dumps_str_spaces:
  "filter (\<lambda>c. c = CHR '' '') (json_dumps_str s) = filter (\<lambda>c. c = CHR '' '') s"
  by (simp add: json_dumps_str_def concat_escape_spaces)



lemma py_int_str: "py_int h (JStr s) = Inl e \<Longrightarrow> caught e"
  by (auto split: option.splits)




section \<open>Sequences compile in insertion order\<close>

text \<open>
  Claim C1. An empty sequence compiles to the empty statement list. After \<open>N\<close> calls of
  \<open>add\<close> on it (the terms \<open>ts\<close>, in order) the sequence holds exactly the \<open>N\<close> entries of
  those terms in that order, and \<open>get_cmds\<close> returns a list \<open>cmds\<close> exactly when \<open>cmds\<close>
  has \<open>N\<close> nodes and its \<open>i\<close>-th node is the compiled \<open>i\<close>-th entry. A bare expression
  compiles to the \<open>stmt\<close> node of its compiled form, whatever the fuel, so a sequence of
  bare expressions always compiles, to their \<open>stmt\<close> nodes in insertion order.
\<close>

theorem sequence_compiles_in_insertion_order:
  "is_empty s ctx \<Longrightarrow>
     get_cmds (Suc n) cmp (store ctx) s = Some [] \<and>
     Seq_compile (get_cmds (Suc n) cmp (store ctx)) s = Some (SeqObj []) \<and>
     store (fold (add cmp s) ts ctx) s = map (as_entry cmp) ts \<and>
     (get_cmds (Suc n) cmp (store (fold (add cmp s) ts ctx)) s = Some cmds \<longleftrightarrow>
        length cmds = length ts \<and>
        (\<forall>i<length ts.
           compile (get_cmds n cmp (store (fold (add cmp s) ts ctx))) cmp (as_entry cmp (ts ! i))
             = Some (cmds ! i))) \<and>
     (\<forall>i<length ts. \<forall>e. ts ! i = TExpr e \<longrightarrow>
        compile (get_cmds n cmp (store (fold (add cmp s) ts ctx))) cmp (as_entry cmp (ts ! i))
          = Some (StmtObj (cmp e))) \<and>
     get_cmds (Suc n) cmp (store (fold (add cmp s) (map TExpr es) ctx)) s
       = Some (map (\<lambda>e. StmtObj (cmp e)) es)"
proof -
  assume e: "is_empty s ctx"
  have st: "store (fold (add cmp s) ts ctx) s = map (as_entry cmp) ts" for ts
    using e by (simp add: is_empty_def store_fold_add)
  have 1: "get_cmds (Suc n) cmp (store ctx) s = Some []"
    using e by (simp add: is_empty_def)
  then have 2: "Seq_compile (get_cmds (Suc n) cmp (store ctx)) s = Some (SeqObj [])"
    by (simp add: Seq_compile_def)
  have 3: "get_cmds (Suc n) cmp (store (fold (add cmp s) ts ctx)) s = Some cmds \<longleftrightarrow>
      length cmds = length ts \<and>
      (\<forall>i<length ts.
         compile (get_cmds n cmp (store (fold (add cmp s) ts ctx))) cmp (as_entry cmp (ts ! i))
           = Some (cmds ! i))"
    unfolding get_cmds_Suc_iff st by simp
  have 4: "\<forall>i<length ts. \<forall>e. ts ! i = TExpr e \<longrightarrow>
      compile (get_cmds n cmp (store (fold (add cmp s) ts ctx))) cmp (as_entry cmp (ts ! i))
        = Some (StmtObj (cmp e))"
    by simp
  have 5: "get_cmds (Suc n) cmp (store (fold (add cmp s) (map TExpr es) ctx)) s
      = Some (map (\<lambda>e. StmtObj (cmp e)) es)"
    by (rule get_cmds_exprs) (rule st)
  from 1 2 st 3 4 5 show ?thesis by blast
qed

theorem sequence_compiles_in_insertion_order_witness:
  "is_empty 0 (FnContext_init :: (nat, nat, nat) FnContext) \<and>
   get_cmds (Suc 0) (\<lambda>e. e + 1)
     (store (fold (add (\<lambda>e. e + 1) 0) [TExpr 10, TExpr 20]
        (FnContext_init :: (nat, nat, nat) FnContext))) 0
     = Some [StmtObj 11, StmtObj 21]"
  using sequence_compiles_in_insertion_order
    [of 0 "FnContext_init :: (nat, nat, nat) FnContext" 0 "\<lambda>e. e + 1" "[]" "[]" "[10, 20]"]
  by (simp add: is_empty_def FnContext_init_def)

section \<open>Branches always carry both children\<close>

text \<open>
  Claim C5. A \<open>Branch\<close> compiles exactly when both of its child sequences compile, and
  then to the \<open>branch\<close> node of the compiled condition, the compiled success sequence and
  the compiled failure sequence. An empty child compiles to the \<open>seq\<close> node with the
  empty statement list: the node of the branch holds it, it is never left out.
\<close>

theorem branch_compile_both_present:
  "(Branch_compile (get_cmds n cmp st) cmp b = Some r \<longleftrightarrow>
      (\<exists>th el. get_cmds n cmp st (Branch_success b) = Some th \<and>
               get_cmds n cmp st (Branch_failure b) = Some el \<and>
               r = BranchObj (cmp (Branch_condition b)) (SeqObj th) (SeqObj el))) \<and>
   (st (Branch_success b) = [] \<and> st (Branch_failure b) = [] \<longrightarrow>
      Branch_compile (get_cmds (Suc n) cmp st) cmp b =
        Some (BranchObj (cmp (Branch_condition b)) (SeqObj []) (SeqObj []))) \<and>
   (st (Branch_failure b) = [] \<and> get_cmds (Suc n) cmp st (Branch_success b) = Some th \<longrightarrow>
      Branch_compile (get_cmds (Suc n) cmp st) cmp b =
        Some (BranchObj (cmp (Branch_condition b)) (SeqObj th) (SeqObj []))) \<and>
   (st (Branch_success b) = [] \<and> get_cmds (Suc n) cmp st (Branch_failure b) = Some el \<longrightarrow>
      Branch_compile (get_cmds (Suc n) cmp st) cmp b =
        Some (BranchObj (cmp (Branch_condition b)) (SeqObj []) (SeqObj el)))"
  by (auto simp: Branch_compile_def Seq_compile_def split: option.splits)

theorem branch_compile_both_present_witness:
  "Branch_compile (get_cmds (Suc 0) id (\<lambda>a. [])) id (Branch (7::nat) 1 2) =
     Some (BranchObj 7 (SeqObj []) (SeqObj []) :: (nat, nat) CommandObj)"
  using branch_compile_both_present
    [of 0 id "\<lambda>a. []" "Branch (7::nat) 1 2"
        "BranchObj 7 (SeqObj []) (SeqObj []) :: (nat, nat) CommandObj" "[]" "[]"]
  by simp

section \<open>Loop variables have no declaration form\<close>

text \<open>
  Claim C9. \<open>get_declare_rhs\<close> of an \<open>IndexVariable\<close> and of a \<open>ValueVariable\<close> raises
  the \<open>RuntimeError\<close> "must be used in for loop", for every such variable and so for the
  two variables any call of \<open>for_\<close> returns: the error of a misuse of the interface, not
  the \<open>ValueError\<close> the declarations raise on a naming conflict.
\<close>

theorem loop_variable_declare_rhs_raises:
  "(IndexVariable_get_declare_rhs iv :: error + 'e)
      = Inl (RuntimeError ''must be used in for loop'') \<and>
   (ValueVariable_get_declare_rhs vv :: error + 'e)
      = Inl (RuntimeError ''must be used in for loop'') \<and>
   (case Sequence_for cmp s array ctx of ((lp, ix, val), ctx') \<Rightarrow>
      (IndexVariable_get_declare_rhs ix :: error + 'e)
         = Inl (RuntimeError ''must be used in for loop'') \<and>
      (ValueVariable_get_declare_rhs val :: error + 'e)
         = Inl (RuntimeError ''must be used in for loop''))"
  by (simp add: IndexVariable_get_declare_rhs_def ValueVariable_get_declare_rhs_def
      split: prod.splits)

section \<open>A failed declaration leaves the scope unchanged\<close>

text \<open>
  Claim C10. When \<open>add_arg\<close> (respectively \<open>add_key\<close>) is called with a name already
  declared in its namespace it raises the naming-conflict error and the scope is exactly
  the scope before the call: the registrations, the name sets, the sequences and the
  counters are the same, and every later declaration behaves as it would have without the
  failed call. A call that raises has found the name declared, whatever the error.
\<close>

theorem failed_declaration_leaves_scope_unchanged:
  "(name \<in> anames ctx \<longrightarrow>
      add_arg cmp name ctx = (Inl (ValueError (''ambiguous arg name: '' @ name)), ctx) \<and>
      (\<forall>name'. add_arg cmp name' (snd (add_arg cmp name ctx)) = add_arg cmp name' ctx)) \<and>
   (name \<in> knames ctx \<longrightarrow>
      add_key cmp name ctx = (Inl (ValueError (''ambiguous key name: '' @ name)), ctx) \<and>
      (\<forall>name'. add_key cmp name' (snd (add_key cmp name ctx)) = add_key cmp name' ctx)) \<and>
   (\<forall>e ctx'. add_arg cmp name ctx = (Inl e, ctx') \<or> add_key cmp name ctx = (Inl e, ctx')
      \<longrightarrow> ctx' = ctx)"
  by (auto simp: add_arg_def add_key_def Let_def split: if_splits)

theorem failed_declaration_leaves_scope_unchanged_witness:
  "''a'' \<in> anames (snd (add_arg id ''a'' (FnContext_init :: (nat, nat, nat) FnContext))) \<and>
   add_arg id ''a'' (snd (add_arg id ''a'' (FnContext_init :: (nat, nat, nat) FnContext))) =
     (Inl (ValueError ''ambiguous arg name: a''), snd (add_arg id ''a'' FnContext_init))"
  using failed_declaration_leaves_scope_unchanged
    [of "''a''" "snd (add_arg id ''a'' (FnContext_init :: (nat, nat, nat) FnContext))" id]
  by (simp add: add_arg_def FnContext_init_def Let_def)

section \<open>Loop ids\<close>

text \<open>
  Claim C4. A call of \<open>for_\<close> takes the current value of the scope's loop counter as the
  id of the new loop, gives it to both the index variable and the value variable of the
  loop, and advances the counter by one; the compiled references of the two variables are
  \<open>ix_<id>\<close> and \<open>val_<id>\<close>, the same id under two prefixes. In a building session on
  a fresh scope the loop made by the \<open>i\<close>-th call has as id the number of loop ids
  allocated by the calls before it (so \<open>0, 1, 2, ...\<close> in construction order), whatever
  sequence the loop is added to (the scope itself, or the body of another loop or branch
  at any depth). Two loops of one session have different ids, the later one the greater,
  and different compiled references.
\<close>

theorem loop_ids_distinct_and_shared:
  "(case Sequence_for cmp s array ctx of ((lp, ix, val), ctx') \<Rightarrow>
      ix = IndexVariable (loops ctx) \<and> val = ValueVariable (loops ctx) \<and>
      loops ctx' = Suc (loops ctx) \<and>
      last (store ctx' s) = CForLoop (ForLoop ix val lp array) \<and>
      get_index_ref ix = IndexObj (''ix_'' @ str_nat (loops ctx)) \<and>
      get_var_ref val = VarObj (''val_'' @ str_nat (loops ctx))) \<and>
   (\<forall>i<length cs. \<forall>s array. cs ! i = CallFor s array \<longrightarrow>
      (\<exists>lp. fst (session lit cmp cs FnContext_init) ! i =
         ForHandles lp (IndexVariable (length (filter allocates_loop (take i cs))))
           (ValueVariable (length (filter allocates_loop (take i cs)))))) \<and>
   (\<forall>i j lp ix val lp' ix' val'.
      i < j \<and> j < length cs \<and>
      fst (session lit cmp cs FnContext_init) ! i = ForHandles lp ix val \<and>
      fst (session lit cmp cs FnContext_init) ! j = ForHandles lp' ix' val' \<longrightarrow>
        IndexVariable_get_index ix < IndexVariable_get_index ix' \<and>
        ValueVariable_get_index val = IndexVariable_get_index ix \<and>
        ValueVariable_get_index val' = IndexVariable_get_index ix' \<and>
        get_index_ref ix \<noteq> get_index_ref ix' \<and>
        get_var_ref val \<noteq> get_var_ref val')"
  (is "?A \<and> ?B \<and> ?C")
proof -
  have A: ?A
    by (simp add: split_def Sequence_for_fst get_index_ref_def get_var_ref_def
        IndexVariable_prefix_def ValueVariable_prefix_def)
  have B: ?B
  proof (intro allI impI)
    fix i s array
    assume "i < length cs" "cs ! i = CallFor s array"
    from session_for_outcome [OF this, of lit cmp FnContext_init]
    show "\<exists>lp. fst (session lit cmp cs FnContext_init) ! i =
         ForHandles lp (IndexVariable (length (filter allocates_loop (take i cs))))
           (ValueVariable (length (filter allocates_loop (take i cs))))"
      by (simp add: FnContext_init_def)
  qed
  have C: ?C
  proof (intro allI impI)
    fix i j lp ix val lp' ix' val'
    assume a: "i < j \<and> j < length cs \<and>
      fst (session lit cmp cs FnContext_init) ! i = ForHandles lp ix val \<and>
      fst (session lit cmp cs FnContext_init) ! j = ForHandles lp' ix' val'"
    then have i: "i < length cs" and j: "j < length cs" and ij: "i < j" by simp_all
    from a i have "fst (perform lit cmp (cs ! i) (snd (session lit cmp (take i cs) FnContext_init)))
        = ForHandles lp ix val"
      by (simp add: session_nth)
    then obtain s array where ci: "cs ! i = CallFor s array"
      using perform_ForHandles by blast
    from a j have "fst (perform lit cmp (cs ! j) (snd (session lit cmp (take j cs) FnContext_init)))
        = ForHandles lp' ix' val'"
      by (simp add: session_nth)
    then obtain s' array' where cj: "cs ! j = CallFor s' array'"
      using perform_ForHandles by blast
    let ?k = "\<lambda>i. length (filter allocates_loop (take i cs))"
    from session_for_outcome [OF i ci, of lit cmp FnContext_init] a
    have 1: "ix = IndexVariable (?k i)" "val = ValueVariable (?k i)"
      by (simp_all add: FnContext_init_def)
    from session_for_outcome [OF j cj, of lit cmp FnContext_init] a
    have 2: "ix' = IndexVariable (?k j)" "val' = ValueVariable (?k j)"
      by (simp_all add: FnContext_init_def)
    have lt: "?k i < ?k j"
      using ij i ci by (intro filter_take_mono) simp_all
    then have ne: "str_nat (?k i) \<noteq> str_nat (?k j)"
      using str_nat_inj [of "?k i" "?k j"] by auto
    show "IndexVariable_get_index ix < IndexVariable_get_index ix' \<and>
        ValueVariable_get_index val = IndexVariable_get_index ix \<and>
        ValueVariable_get_index val' = IndexVariable_get_index ix' \<and>
        get_index_ref ix \<noteq> get_index_ref ix' \<and>
        get_var_ref val \<noteq> get_var_ref val'"
      using lt ne unfolding 1 2
      by (simp add: get_index_ref_def get_var_ref_def IndexVariable_prefix_def
          ValueVariable_prefix_def)
  qed
  from A B C show ?thesis by (intro conjI)
qed

theorem loop_ids_distinct_and_shared_witness:
  "fst (session (case_option 0 id) id
      [CallFor 0 (5::nat), CallIf 0 (Some (1::nat)), CallFor 1 6, CallFor 3 7]
      (FnContext_init :: (nat, nat, nat) FnContext)) =
   [ForHandles 1 (IndexVariable 0) (ValueVariable 0), IfHandles 2 3,
    ForHandles 4 (IndexVariable 1) (ValueVariable 1),
    ForHandles 5 (IndexVariable 2) (ValueVariable 2)] \<and>
   get_index_ref (IndexVariable 0) \<noteq> get_index_ref (IndexVariable 2)"
proof -
  let ?cs = "[CallFor 0 (5::nat), CallIf 0 (Some (1::nat)), CallFor 1 6, CallFor 3 7]
     :: (nat, nat, nat) call list"
  have outs: "fst (session (case_option 0 id) id ?cs (FnContext_init :: (nat, nat, nat) FnContext)) =
     [ForHandles 1 (IndexVariable 0) (ValueVariable 0), IfHandles 2 3,
      ForHandles 4 (IndexVariable 1) (ValueVariable 1),
      ForHandles 5 (IndexVariable 2) (ValueVariable 2)]"
    by (simp add: FnContext_init_def split_def Sequence_for_fst Sequence_if_fst)
  from loop_ids_distinct_and_shared [where cmp = id and s = 0 and array = "5::nat"
      and ctx = "FnContext_init :: (nat, nat, nat) FnContext" and cs = ?cs
      and lit = "case_option 0 id"]
  have "\<forall>i j lp ix val lp' ix' val'.
      i < j \<and> j < length ?cs \<and>
      fst (session (case_option 0 id) id ?cs (FnContext_init :: (nat, nat, nat) FnContext)) ! i = ForHandles lp ix val \<and>
      fst (session (case_option 0 id) id ?cs (FnContext_init :: (nat, nat, nat) FnContext)) ! j = ForHandles lp' ix' val' \<longrightarrow>
        get_index_ref ix \<noteq> get_index_ref ix'"
    by blast
  from this [rule_format, of 0 3 1 "IndexVariable 0" "ValueVariable 0" 5 "IndexVariable 2" "ValueVariable 2"]
  have "get_index_ref (IndexVariable 0) \<noteq> get_index_ref (IndexVariable 2)"
    unfolding outs by simp
  with outs show ?thesis by simp
qed

section \<open>Declaring arguments and keys\<close>

text \<open>
  Claim C2. \<open>add_arg\<close> with a name that is not yet an argument name returns the new
  argument variable, whose index is the number of arguments declared so far, registers it
  and appends its declare-statement to the scope's own sequence, and leaves the keys
  alone; with a name that is already an argument name it raises the naming-conflict
  error. \<open>add_key\<close> does the same in the namespace of the keys. In a building session on
  a fresh scope a declaration of an argument raises exactly when an earlier call of the
  session declared that name as an argument, and otherwise returns the variable whose
  index is the number of arguments the session has declared before it: \<open>0, 1, 2, ...\<close>
  counted among the arguments alone, whatever keys were declared in between; likewise for
  the keys. So one name can be an argument and a key.
\<close>

theorem declarations_indexed_per_namespace:
  "(name \<notin> anames ctx \<longrightarrow>
      fst (add_arg cmp name ctx) = Inr (JSONArg name (length (args ctx))) \<and>
      store (snd (add_arg cmp name ctx)) self_seq =
        store ctx self_seq @ [CmdHelper (GetDeclare (DArg (JSONArg name (length (args ctx)))))] \<and>
      args (snd (add_arg cmp name ctx)) = args ctx @ [(name, JSONArg name (length (args ctx)))] \<and>
      keys (snd (add_arg cmp name ctx)) = keys ctx \<and>
      knames (snd (add_arg cmp name ctx)) = knames ctx) \<and>
   (name \<in> anames ctx \<longrightarrow>
      fst (add_arg cmp name ctx) = Inl (ValueError (''ambiguous arg name: '' @ name))) \<and>
   (name \<notin> knames ctx \<longrightarrow>
      fst (add_key cmp name ctx) = Inr (KeyVariable name (length (keys ctx))) \<and>
      store (snd (add_key cmp name ctx)) self_seq =
        store ctx self_seq @ [CmdHelper (GetDeclare (DKey (KeyVariable name (length (keys ctx)))))] \<and>
      keys (snd (add_key cmp name ctx)) = keys ctx @ [(name, KeyVariable name (length (keys ctx)))] \<and>
      args (snd (add_key cmp name ctx)) = args ctx \<and>
      anames (snd (add_key cmp name ctx)) = anames ctx) \<and>
   (name \<in> knames ctx \<longrightarrow>
      fst (add_key cmp name ctx) = Inl (ValueError (''ambiguous key name: '' @ name))) \<and>
   (\<forall>i<length cs. \<forall>name. cs ! i = CallAddArg name \<longrightarrow>
      fst (session lit cmp cs FnContext_init) ! i =
        (if CallAddArg name \<in> set (take i cs)
         then Raised (ValueError (''ambiguous arg name: '' @ name))
         else ArgHandle (JSONArg name
           (length (filter is_arg_outcome (take i (fst (session lit cmp cs FnContext_init)))))))) \<and>
   (\<forall>i<length cs. \<forall>name. cs ! i = CallAddKey name \<longrightarrow>
      fst (session lit cmp cs FnContext_init) ! i =
        (if CallAddKey name \<in> set (take i cs)
         then Raised (ValueError (''ambiguous key name: '' @ name))
         else KeyHandle (KeyVariable name
           (length (filter is_key_outcome (take i (fst (session lit cmp cs FnContext_init))))))))"
  (is "?A \<and> ?A' \<and> ?K \<and> ?K' \<and> ?SA \<and> ?SK")
proof -
  have A: ?A using add_arg_fresh [of name ctx cmp] by simp
  have A': ?A' by (simp add: add_arg_dup)
  have K: ?K using add_key_fresh [of name ctx cmp] by simp
  have K': ?K' by (simp add: add_key_dup)
  have SA: ?SA
  proof (intro allI impI)
    fix i name
    assume "i < length cs" "cs ! i = CallAddArg name"
    from session_arg_outcome [OF this, of lit cmp FnContext_init]
    show "fst (session lit cmp cs FnContext_init) ! i =
        (if CallAddArg name \<in> set (take i cs)
         then Raised (ValueError (''ambiguous arg name: '' @ name))
         else ArgHandle (JSONArg name
           (length (filter is_arg_outcome (take i (fst (session lit cmp cs FnContext_init)))))))"
      by (simp add: FnContext_init_def)
  qed
  have SK: ?SK
  proof (intro allI impI)
    fix i name
    assume "i < length cs" "cs ! i = CallAddKey name"
    from session_key_outcome [OF this, of lit cmp FnContext_init]
    show "fst (session lit cmp cs FnContext_init) ! i =
        (if CallAddKey name \<in> set (take i cs)
         then Raised (ValueError (''ambiguous key name: '' @ name))
         else KeyHandle (KeyVariable name
           (length (filter is_key_outcome (take i (fst (session lit cmp cs FnContext_init)))))))"
      by (simp add: FnContext_init_def)
  qed
  from A A' K K' SA SK show ?thesis by (intro conjI)
qed


theorem declarations_indexed_per_namespace_witness:
  "fst (session (case_option 0 id) id
      [CallAddArg ''a'', CallAddKey ''a'', CallAddArg ''b'', CallAddArg ''a'', CallAddKey ''k'']
      (FnContext_init :: (nat, nat, nat) FnContext)) =
   [ArgHandle (JSONArg ''a'' 0), KeyHandle (KeyVariable ''a'' 0), ArgHandle (JSONArg ''b'' 1),
    Raised (ValueError ''ambiguous arg name: a''), KeyHandle (KeyVariable ''k'' 1)] \<and>
   CallAddArg ''a'' \<in> set (take 3
      ([CallAddArg ''a'', CallAddKey ''a'', CallAddArg ''b'', CallAddArg ''a'', CallAddKey ''k'']
        :: (nat, nat, nat) call list))"
proof -
  let ?cs = "[CallAddArg ''a'', CallAddKey ''a'', CallAddArg ''b'', CallAddArg ''a'',
     CallAddKey ''k''] :: (nat, nat, nat) call list"
  let ?outs = "fst (session (case_option 0 id) id ?cs (FnContext_init :: (nat, nat, nat) FnContext))"
  have outs: "?outs =
     [ArgHandle (JSONArg ''a'' 0), KeyHandle (KeyVariable ''a'' 0), ArgHandle (JSONArg ''b'' 1),
      Raised (ValueError ''ambiguous arg name: a''), KeyHandle (KeyVariable ''k'' 1)]"
    by (simp add: FnContext_init_def split_def add_arg_def add_key_def Let_def)
  have mem: "CallAddArg ''a'' \<in> set (take 3 ?cs)"
    by (simp add: numeral_3_eq_3)
  from declarations_indexed_per_namespace [where cs = ?cs and lit = "case_option 0 id" and cmp = id
      and name = "''a''" and ctx = "FnContext_init :: (nat, nat, nat) FnContext"]
  have "\<forall>i<length ?cs. \<forall>name. ?cs ! i = CallAddArg name \<longrightarrow>
      ?outs ! i =
        (if CallAddArg name \<in> set (take i ?cs)
         then Raised (ValueError (''ambiguous arg name: '' @ name))
         else ArgHandle (JSONArg name (length (filter is_arg_outcome (take i ?outs)))))"
    by blast
  from this [rule_format, of 3 "''a''"] mem
  have "?outs ! 3 = Raised (ValueError ''ambiguous arg name: a'')"
    by simp
  with outs mem show ?thesis by simp
qed

section \<open>Control-flow nodes are appended when they are made\<close>

text \<open>
  Claim C3. On a sequence \<open>s\<close> of the scope (an address already allocated), one call of
  \<open>for_\<close>, \<open>if_\<close> or \<open>while_\<close> appends exactly one entry to \<open>s\<close>, at once: the store
  after the call holds the old entries of \<open>s\<close> followed by the new control-flow node, the
  node's child sequences are new, empty and different from \<open>s\<close>, no other sequence
  changes, and the call returns the addresses of those very children (and, for a loop, the
  node's variables). The node refers to its children by address, so in any later store
  its compiled form holds what the children compile to then. In particular, after
  terms are added to the returned children, \<open>s\<close> still holds the old entries followed by
  the one node, and \<open>s\<close> compiles exactly when its old entries and the added terms
  compile, to the old statements followed by the node that holds the added statements in
  order.
\<close>

theorem control_nodes_appended_at_call:
  "s < next_seq ctx \<Longrightarrow>
   (case Sequence_for cmp s array ctx of ((lp, ix, val), ctx1) \<Rightarrow>
         lp = next_seq ctx \<and> lp \<noteq> s \<and>
         store ctx1 s = store ctx s @ [CForLoop (ForLoop ix val lp array)] \<and>
         store ctx1 lp = [] \<and>
         (\<forall>a. a \<noteq> s \<and> a \<noteq> lp \<longrightarrow> store ctx1 a = store ctx a) \<and>
         (\<forall>st. compile (get_cmds n cmp st) cmp (CForLoop (ForLoop ix val lp array)) =
            map_option (\<lambda>body. ForObj (cmp array) (get_index_ref ix) (get_var_ref val) (SeqObj body))
              (get_cmds n cmp st lp)) \<and>
         store (fold (add cmp lp) ts ctx1) s = store ctx s @ [CForLoop (ForLoop ix val lp array)] \<and>
         store (fold (add cmp lp) ts ctx1) lp = map (as_entry cmp) ts \<and>
         get_cmds (Suc (Suc n)) cmp (store (fold (add cmp lp) ts ctx1)) s =
           (case those (map (compile (get_cmds (Suc n) cmp (store (fold (add cmp lp) ts ctx1))) cmp)
                    (store ctx s)) of None \<Rightarrow> None
            | Some done \<Rightarrow>
               (case those (map (compile (get_cmds n cmp (store (fold (add cmp lp) ts ctx1))) cmp)
                    (map (as_entry cmp) ts)) of None \<Rightarrow> None
                | Some body \<Rightarrow>
                   Some (done @ [ForObj (cmp array) (get_index_ref ix) (get_var_ref val) (SeqObj body)])))) \<and>
   (case Sequence_if lit cmp s c ctx of ((su, fa), ctx1) \<Rightarrow>
         su = next_seq ctx \<and> fa = Suc (next_seq ctx) \<and> su \<noteq> s \<and> fa \<noteq> s \<and>
         store ctx1 s = store ctx s @ [CBranch (Branch (lit c) su fa)] \<and>
         store ctx1 su = [] \<and> store ctx1 fa = [] \<and>
         (\<forall>a. a \<noteq> s \<and> a \<noteq> su \<and> a \<noteq> fa \<longrightarrow> store ctx1 a = store ctx a) \<and>
         (\<forall>st. compile (get_cmds n cmp st) cmp (CBranch (Branch (lit c) su fa)) =
            (case get_cmds n cmp st su of None \<Rightarrow> None
             | Some th \<Rightarrow> (case get_cmds n cmp st fa of None \<Rightarrow> None
             | Some el \<Rightarrow> Some (BranchObj (cmp (lit c)) (SeqObj th) (SeqObj el))))) \<and>
         store (fold (add cmp fa) fs (fold (add cmp su) ts ctx1)) s =
           store ctx s @ [CBranch (Branch (lit c) su fa)] \<and>
         store (fold (add cmp fa) fs (fold (add cmp su) ts ctx1)) su = map (as_entry cmp) ts \<and>
         store (fold (add cmp fa) fs (fold (add cmp su) ts ctx1)) fa = map (as_entry cmp) fs \<and>
         get_cmds (Suc (Suc n)) cmp (store (fold (add cmp fa) fs (fold (add cmp su) ts ctx1))) s =
           (case those (map (compile (get_cmds (Suc n) cmp
                    (store (fold (add cmp fa) fs (fold (add cmp su) ts ctx1)))) cmp)
                    (store ctx s)) of None \<Rightarrow> None
            | Some done \<Rightarrow>
               (case those (map (compile (get_cmds n cmp
                    (store (fold (add cmp fa) fs (fold (add cmp su) ts ctx1)))) cmp)
                    (map (as_entry cmp) ts)) of None \<Rightarrow> None
                | Some th \<Rightarrow>
                   (case those (map (compile (get_cmds n cmp
                        (store (fold (add cmp fa) fs (fold (add cmp su) ts ctx1)))) cmp)
                        (map (as_entry cmp) fs)) of None \<Rightarrow> None
                    | Some el \<Rightarrow>
                       Some (done @ [BranchObj (cmp (lit c)) (SeqObj th) (SeqObj el)]))))) \<and>
   (case Sequence_while lit cmp s c ctx of (lp, ctx1) \<Rightarrow>
         lp = next_seq ctx \<and> lp \<noteq> s \<and>
         store ctx1 s = store ctx s @ [CWhileLoop (WhileLoop (lit c) lp)] \<and>
         store ctx1 lp = [] \<and>
         (\<forall>a. a \<noteq> s \<and> a \<noteq> lp \<longrightarrow> store ctx1 a = store ctx a) \<and>
         (\<forall>st. compile (get_cmds n cmp st) cmp (CWhileLoop (WhileLoop (lit c) lp)) =
            map_option (\<lambda>body. WhileObj (cmp (lit c)) (SeqObj body)) (get_cmds n cmp st lp)) \<and>
         store (fold (add cmp lp) ts ctx1) s = store ctx s @ [CWhileLoop (WhileLoop (lit c) lp)] \<and>
         store (fold (add cmp lp) ts ctx1) lp = map (as_entry cmp) ts \<and>
         get_cmds (Suc (Suc n)) cmp (store (fold (add cmp lp) ts ctx1)) s =
           (case those (map (compile (get_cmds (Suc n) cmp (store (fold (add cmp lp) ts ctx1))) cmp)
                    (store ctx s)) of None \<Rightarrow> None
            | Some done \<Rightarrow>
               (case those (map (compile (get_cmds n cmp (store (fold (add cmp lp) ts ctx1))) cmp)
                    (map (as_entry cmp) ts)) of None \<Rightarrow> None
                | Some body \<Rightarrow> Some (done @ [WhileObj (cmp (lit c)) (SeqObj body)]))))"
  by (intro conjI for_appends_node if_appends_node while_appends_node)

theorem control_nodes_appended_at_call_witness:
  "(0::nat) < next_seq (FnContext_init :: (nat, nat, nat) FnContext) \<and>
   (case Sequence_for id 0 (5::nat) (FnContext_init :: (nat, nat, nat) FnContext) of
      ((lp, ix, val), ctx1) \<Rightarrow>
        store ctx1 0 = [CForLoop (ForLoop ix val lp 5)] \<and>
        get_cmds (Suc (Suc 0)) id (store (fold (add id lp) [TExpr 10, TExpr 20] ctx1)) 0 =
          Some [ForObj 5 (IndexObj ''ix_0'') (VarObj ''val_0'') (SeqObj [StmtObj 10, StmtObj 20])])"
proof -
  have h: "(0::nat) < next_seq (FnContext_init :: (nat, nat, nat) FnContext)"
    by (simp add: FnContext_init_def)
  note for_part = control_nodes_appended_at_call [where s = 0 and ctx = "FnContext_init :: (nat, nat, nat) FnContext"
      and cmp = id and array = "5::nat" and ts = "[TExpr 10, TExpr 20]" and n = 0 and fs = "[]"
      and lit = "case_option 0 id" and c = None, OF h, THEN conjunct1]
  have e: "store (FnContext_init :: (nat, nat, nat) FnContext) 0 = []"
    by (simp add: FnContext_init_def)
  from for_part h show ?thesis
    unfolding split_def Sequence_for_fst fst_conv snd_conv e
    by (simp add: get_index_ref_def get_var_ref_def IndexVariable_prefix_def
        ValueVariable_prefix_def str_nat_small digit_char_0 FnContext_init_def
        ForLoop_compile_def Seq_compile_def)
qed

section \<open>string.find\<close>

text \<open>
  Claim C7. \<open>string.find\<close> has the arity 2, up to 3. With two arguments it returns the
  0-based index of the first occurrence of the (stringified) needle in the (stringified)
  haystack, and nil exactly when the needle does not occur. With a third argument that
  converts to the integer \<open>start\<close> the search begins at that offset (counted from the
  end when it is negative, as Python's \<open>find\<close> does): the result is the least index at
  or after the offset at which the needle occurs, and nil exactly when there is none.
  \<open>string.find("hello world", "world")\<close> is 6 and \<open>string.find("abc", "z")\<close> is nil.
\<close>

theorem string_find_first_occurrence:
  "GStringFindFn_name = ''string.find'' \<and>
   GStringFindFn_argc = \<lparr> count = 2, at_most = Some 3 \<rparr> \<and>
   (GStringFindFn_call h [a0, a1] = Inr JNone \<longleftrightarrow>
      (\<forall>j. \<not> occurs_at (py_str h a0) (py_str h a1) j)) \<and>
   (GStringFindFn_call h [a0, a1] = Inr (JInt k) \<longleftrightarrow>
      0 \<le> k \<and> occurs_at (py_str h a0) (py_str h a1) (nat k) \<and>
      (\<forall>j<nat k. \<not> occurs_at (py_str h a0) (py_str h a1) j)) \<and>
   (py_int h a2 = Inr start \<longrightarrow>
      (GStringFindFn_call h [a0, a1, a2] = Inr JNone \<longleftrightarrow>
         (\<forall>j\<ge>nat (find_start (py_str h a0) (Some start)).
             \<not> occurs_at (py_str h a0) (py_str h a1) j)) \<and>
      (GStringFindFn_call h [a0, a1, a2] = Inr (JInt k) \<longleftrightarrow>
         0 \<le> k \<and> nat (find_start (py_str h a0) (Some start)) \<le> nat k \<and>
         occurs_at (py_str h a0) (py_str h a1) (nat k) \<and>
         (\<forall>j. nat (find_start (py_str h a0) (Some start)) \<le> j \<and> j < nat k \<longrightarrow>
             \<not> occurs_at (py_str h a0) (py_str h a1) j))) \<and>
   (0 \<le> start \<longrightarrow> find_start (py_str h a0) (Some start) = start) \<and>
   GStringFindFn_call h [JStr ''hello world'', JStr ''world''] = Inr (JInt 6) \<and>
   GStringFindFn_call h [JStr ''abc'', JStr ''z''] = Inr JNone"
  (is "?N \<and> ?A \<and> ?P1 \<and> ?P2 \<and> ?P3 \<and> ?P4 \<and> ?E1 \<and> ?E2")
proof -
  let ?hay = "py_str h a0" and ?sub = "py_str h a1"
  have N: ?N by (simp add: GStringFindFn_name_def)
  have A: ?A by (simp add: GStringFindFn_argc_def)
  have P1: ?P1
    using str_find_None_iff [where hay = ?hay and start = None and sub = ?sub, OF find_start_nonneg]
    by (simp add: find_result_None)
  have P2: ?P2
    using str_find_Some_iff [where hay = ?hay and start = None and sub = ?sub and k = k, OF find_start_nonneg]
    by (simp add: find_result_Int)
  have P3: ?P3
  proof
    assume i: "py_int h a2 = Inr start"
    show "(GStringFindFn_call h [a0, a1, a2] = Inr JNone \<longleftrightarrow>
         (\<forall>j\<ge>nat (find_start ?hay (Some start)). \<not> occurs_at ?hay ?sub j)) \<and>
      (GStringFindFn_call h [a0, a1, a2] = Inr (JInt k) \<longleftrightarrow>
         0 \<le> k \<and> nat (find_start ?hay (Some start)) \<le> nat k \<and>
         occurs_at ?hay ?sub (nat k) \<and>
         (\<forall>j. nat (find_start ?hay (Some start)) \<le> j \<and> j < nat k \<longrightarrow>
             \<not> occurs_at ?hay ?sub j))"
      using str_find_None_iff [where hay = ?hay and start = "Some start" and sub = ?sub, OF find_start_nonneg]
        str_find_Some_iff [where hay = ?hay and start = "Some start" and sub = ?sub and k = k,
          OF find_start_nonneg] i
      by (simp add: find_result_None find_result_Int)
  qed
  have P4: ?P4 by (simp add: find_start_def)
  have E1: ?E1
    by (simp add: str_find_def find_result_def)
  have E2: ?E2
    by (simp add: str_find_def find_result_def)
  from N A P1 P2 P3 P4 E1 E2 show ?thesis by (intro conjI)
qed

theorem string_find_first_occurrence_witness:
  "py_int \<lparr> float_repr = (\<lambda>f. ''0.0''), float_trunc = (\<lambda>f. 0), float_parse = (\<lambda>s. None),
            float_of_int = (\<lambda>i. None), container_str = (\<lambda>v. ''[]'') \<rparr> (JInt 5 :: unit JSONType)
      = Inr 5 \<and>
   GStringFindFn_call \<lparr> float_repr = (\<lambda>f. ''0.0''), float_trunc = (\<lambda>f. 0),
            float_parse = (\<lambda>s. None), float_of_int = (\<lambda>i. None),
            container_str = (\<lambda>v. ''[]'') \<rparr>
      [JStr ''abcabc'', JStr ''bc'', JInt 2 :: unit JSONType] = Inr (JInt 4) \<and>
   occurs_at ''abcabc'' ''bc'' 4 \<and> \<not> occurs_at ''abcabc'' ''bc'' 2 \<and>
   \<not> occurs_at ''abcabc'' ''bc'' 3"
proof -
  let ?h = "\<lparr> float_repr = (\<lambda>f. ''0.0''), float_trunc = (\<lambda>f. 0), float_parse = (\<lambda>s. None),
            float_of_int = (\<lambda>i. None), container_str = (\<lambda>v. ''[]'') \<rparr> :: unit host"
  have c: "GStringFindFn_call ?h [JStr ''abcabc'', JStr ''bc'', JInt 2] = Inr (JInt 4)"
    by (simp add: str_find_def find_result_def find_start_def)
  from string_find_first_occurrence [where h = ?h and ?a0.0 = "JStr ''abcabc''" and ?a1.0 = "JStr ''bc''"
      and ?a2.0 = "JInt 2" and start = 2 and k = 4]
  have "py_int ?h (JInt 2) = Inr 2 \<longrightarrow>
      (GStringFindFn_call ?h [JStr ''abcabc'', JStr ''bc'', JInt 2] = Inr (JInt 4) \<longleftrightarrow>
         (0::int) \<le> 4 \<and> nat (find_start (py_str ?h (JStr ''abcabc'')) (Some 2)) \<le> nat 4 \<and>
         occurs_at (py_str ?h (JStr ''abcabc'')) (py_str ?h (JStr ''bc'')) (nat 4) \<and>
         (\<forall>j. nat (find_start (py_str ?h (JStr ''abcabc'')) (Some 2)) \<le> j \<and> j < nat 4 \<longrightarrow>
             \<not> occurs_at (py_str ?h (JStr ''abcabc'')) (py_str ?h (JStr ''bc'')) j))"
    by blast
  with c have
    "occurs_at ''abcabc'' ''bc'' 4 \<and>
     (\<forall>j. nat (find_start ''abcabc'' (Some 2)) \<le> j \<and> j < 4 \<longrightarrow> \<not> occurs_at ''abcabc'' ''bc'' j)"
    by simp
  then have "occurs_at ''abcabc'' ''bc'' 4 \<and> \<not> occurs_at ''abcabc'' ''bc'' 2 \<and>
      \<not> occurs_at ''abcabc'' ''bc'' 3"
    by (simp add: find_start_def)
  with c show ?thesis by simp
qed

section \<open>cjson.encode\<close>

text \<open>
  Claim C6. \<open>cjson.encode\<close> (arity 1) stringifies its argument and JSON-encodes that
  string: the result is the text of the argument between double quotes, with the quote,
  the backslash and every character outside the printable ASCII range escaped. So the
  result consists of printable ASCII characters only (no newline among them), its spaces
  are exactly the spaces of the argument's text, and there are no keys to sort. A list
  or a dictionary is encoded as the JSON string of its text, not as a JSON array or
  object: when the text of \<open>[1, 2]\<close> is "[1, 2]", the result is that text in quotes.
\<close>

theorem cjson_encode_stringifies:
  "GCJSONEncodeFn_name = ''cjson.encode'' \<and>
   GCJSONEncodeFn_argc = \<lparr> count = 1, at_most = None \<rparr> \<and>
   GCJSONEncodeFn_call h [v] = Inr (JStr (json_dumps_str (py_str h v))) \<and>
   json_dumps_str (py_str h v) =
     CHR 0x22 # concat (map escape_char (py_str h v)) @ [CHR 0x22] \<and>
   (\<forall>c \<in> set (json_dumps_str (py_str h v)).
      32 \<le> (of_char c :: nat) \<and> (of_char c :: nat) \<le> 126) \<and>
   CHR 0x0A \<notin> set (json_dumps_str (py_str h v)) \<and>
   filter (\<lambda>c. c = CHR '' '') (json_dumps_str (py_str h v)) =
     filter (\<lambda>c. c = CHR '' '') (py_str h v) \<and>
   GCJSONEncodeFn_call h [JList xs] = Inr (JStr (json_dumps_str (container_str h (JList xs)))) \<and>
   GCJSONEncodeFn_call h [JDict kvs] = Inr (JStr (json_dumps_str (container_str h (JDict kvs)))) \<and>
   (container_str h (JList [JInt 1, JInt 2]) = ''[1, 2]'' \<longrightarrow>
      GCJSONEncodeFn_call h [JList [JInt 1, JInt 2]] =
        Inr (JStr (CHR 0x22 # ''[1, 2]'' @ [CHR 0x22]))) \<and>
   GCJSONEncodeFn_call h [JInt 5] = Inr (JStr [CHR 0x22, CHR ''5'', CHR 0x22]) \<and>
   GCJSONEncodeFn_call h [JStr ''a b''] = Inr (JStr (CHR 0x22 # ''a b'' @ [CHR 0x22])) \<and>
   GCJSONEncodeFn_call h [JStr [CHR ''a'', CHR 0x0A, CHR 0x22]] =
     Inr (JStr [CHR 0x22, CHR ''a'', CHR 0x5C, CHR ''n'', CHR 0x5C, CHR 0x22, CHR 0x22])"
  (is "?N \<and> ?A \<and> ?C \<and> ?Q \<and> ?P \<and> ?L \<and> ?S \<and> ?T1 \<and> ?T2 \<and> ?T3 \<and> ?E1 \<and> ?E2 \<and> ?E3")
proof -
  have N: ?N by (simp add: GCJSONEncodeFn_name_def)
  have A: ?A by (simp add: GCJSONEncodeFn_argc_def)
  have C: ?C by simp
  have Q: ?Q by (simp add: json_dumps_str_def)
  have P: ?P using json_dumps_str_printable by blast
  have L: ?L
  proof
    assume "CHR 0x0A \<in> set (json_dumps_str (py_str h v))"
    from json_dumps_str_printable [OF this] show False by simp
  qed
  have S: ?S by (rule json_dumps_str_spaces)
  have T1: ?T1 by simp
  have T2: ?T2 by simp
  have T3: ?T3 by (simp add: json_dumps_str_def escape_char_def)
  have E1: ?E1
    by (simp add: json_dumps_str_def escape_char_def str_int_def str_nat_small digit_char_def)
      code_simp
  have E2: ?E2 by (simp add: json_dumps_str_def escape_char_def)
  have E3: ?E3 by (simp add: json_dumps_str_def escape_char_def)
  from N A C Q P L S T1 T2 T3 E1 E2 E3 show ?thesis by (intro conjI)
qed


theorem cjson_encode_stringifies_witness:
  "container_str \<lparr> float_repr = (\<lambda>f. ''0.0''), float_trunc = (\<lambda>f. 0),
       float_parse = (\<lambda>s. None), float_of_int = (\<lambda>i. None),
       container_str = (\<lambda>v. ''[1, 2]'') \<rparr> (JList [JInt 1, JInt 2 :: unit JSONType]) = ''[1, 2]'' \<and>
   GCJSONEncodeFn_call \<lparr> float_repr = (\<lambda>f. ''0.0''), float_trunc = (\<lambda>f. 0),
       float_parse = (\<lambda>s. None), float_of_int = (\<lambda>i. None),
       container_str = (\<lambda>v. ''[1, 2]'') \<rparr> [JList [JInt 1, JInt 2 :: unit JSONType]] =
     Inr (JStr (CHR 0x22 # ''[1, 2]'' @ [CHR 0x22]))"
  using cjson_encode_stringifies [where h = "\<lparr> float_repr = (\<lambda>f. ''0.0''), float_trunc = (\<lambda>f. 0),
       float_parse = (\<lambda>s. None), float_of_int = (\<lambda>i. None),
       container_str = (\<lambda>v. ''[1, 2]'') \<rparr> :: unit host" and v = JNone and xs = "[]" and kvs = "[]"]
  by simp

section \<open>tonumber\<close>




end
